theory Spec2Isabelle
  imports Main
begin

section \<open>JavaScript values\<close>

text \<open>
  The protocol of \<^verbatim>\<open>packages/plugin-ext/src/common/rpc-protocol.ts\<close> moves values of type
  \<^verbatim>\<open>any\<close>. They are modelled by one datatype. A plain object is the list of its own
  enumerable properties in enumeration order; the instances of the two URI classes carry
  a value of the type parameter \<open>'u\<close> (what the URI libraries keep of a URI); an
  \<^verbatim>\<open>Error\<close> carries its \<^verbatim>\<open>name\<close>, \<^verbatim>\<open>message\<close>, \<^verbatim>\<open>stack\<close> and the legacy
  \<^verbatim>\<open>stacktrace\<close> property that \<^verbatim>\<open>transformErrorForSerialization\<close> reads; a cancellation
  token carries its \<^verbatim>\<open>isCancellationRequested\<close> flag. Numbers are the integers and
  the three numbers that are not finite, \<^verbatim>\<open>NaN\<close>, \<^verbatim>\<open>Infinity\<close> and \<^verbatim>\<open>-Infinity\<close> (IEEE
  rounding, fractions and exponents are outside the model), functions and symbols are
  not values of the model, and a character is one code unit below 256.
\<close>

datatype nonfinite = NaN | PosInfinity | NegInfinity

datatype 'u jsval =
    JUndefined
  | JNull
  | JBool bool
  | JNum int
  | JStr string
  | JArr "'u jsval list"
  | JObj "(string \<times> 'u jsval) list"
  | JTheiaURI 'u
  | JVSCodeURI 'u
  | JErr "'u jsval" "'u jsval" "'u jsval" "'u jsval"
  | JToken bool
  | JNonFinite nonfinite

text \<open>What a failing operation throws out of the engine.\<close>

datatype exn =
    SyntaxError
  | TypeError
  | UriError
  | ConnectionClosed
  | IllTyped
  | InvalidArguments

text \<open>\<^verbatim>\<open>if (v)\<close>, \<^verbatim>\<open>a && b\<close>, \<^verbatim>\<open>a || b\<close>: the truthiness of a value.\<close>

fun truthy :: "'u jsval \<Rightarrow> bool" where
  "truthy JUndefined = False"
| "truthy JNull = False"
| "truthy (JBool b) = b"
| "truthy (JNum n) = (n \<noteq> 0)"
| "truthy (JStr s) = (s \<noteq> [])"
| "truthy (JArr xs) = True"
| "truthy (JObj fs) = True"
| "truthy (JTheiaURI u) = True"
| "truthy (JVSCodeURI u) = True"
| "truthy (JErr n m st stt) = True"
| "truthy (JToken c) = True"
| "truthy (JNonFinite x) = (x \<noteq> NaN)"

fun lookup_prop :: "(string \<times> 'u jsval) list \<Rightarrow> string \<Rightarrow> 'u jsval" where
  "lookup_prop [] k = JUndefined"
| "lookup_prop ((k', x) # fs) k = (if k' = k then x else lookup_prop fs k)"

text \<open>
  \<^verbatim>\<open>v[k]\<close> and \<^verbatim>\<open>v.k\<close> on a value that is neither \<^verbatim>\<open>undefined\<close> nor \<^verbatim>\<open>null\<close>, for the
  property names the program reads (\<^verbatim>\<open>$type\<close>, \<^verbatim>\<open>data\<close>, \<^verbatim>\<open>$mid\<close>, \<^verbatim>\<open>$isError\<close>, \<^verbatim>\<open>name\<close>,
  \<^verbatim>\<open>message\<close>, \<^verbatim>\<open>stack\<close>, \<^verbatim>\<open>stacktrace\<close>, \<^verbatim>\<open>start\<close>, \<^verbatim>\<open>end\<close>, \<^verbatim>\<open>line\<close>, \<^verbatim>\<open>character\<close>, and the
  fields of a message): a primitive, an array and a URI instance have none of them.
\<close>

fun js_get :: "'u jsval \<Rightarrow> string \<Rightarrow> 'u jsval" where
  "js_get (JObj fs) k = lookup_prop fs k"
| "js_get (JErr n m st stt) k =
     (if k = ''name'' then n else if k = ''message'' then m
      else if k = ''stack'' then st else if k = ''stacktrace'' then stt else JUndefined)"
| "js_get (JToken c) k = (if k = ''isCancellationRequested'' then JBool c else JUndefined)"
| "js_get JUndefined k = JUndefined"
| "js_get JNull k = JUndefined"
| "js_get (JBool b) k = JUndefined"
| "js_get (JNum n) k = JUndefined"
| "js_get (JStr s) k = JUndefined"
| "js_get (JArr xs) k = JUndefined"
| "js_get (JTheiaURI u) k = JUndefined"
| "js_get (JVSCodeURI u) k = JUndefined"
| "js_get (JNonFinite x) k = JUndefined"

text \<open>
  A property read that throws \<^verbatim>\<open>TypeError\<close> on \<^verbatim>\<open>undefined\<close> and \<^verbatim>\<open>null\<close>, where the source
  reads without a guard.
\<close>

definition get_member :: "'u jsval \<Rightarrow> string \<Rightarrow> exn + 'u jsval" where
  "get_member v k = (if v = JUndefined \<or> v = JNull then Inl TypeError else Inr (js_get v k))"

text \<open>JavaScript's \<^verbatim>\<open>Map\<close>: insertion order is kept, \<^verbatim>\<open>set\<close> on a present key replaces in place.\<close>

fun Map_get :: "('k \<times> 'v) list \<Rightarrow> 'k \<Rightarrow> 'v option" where
  "Map_get [] k = None"
| "Map_get ((k', v) # m) k = (if k' = k then Some v else Map_get m k)"

fun Map_set :: "'k \<Rightarrow> 'v \<Rightarrow> ('k \<times> 'v) list \<Rightarrow> ('k \<times> 'v) list" where
  "Map_set k v [] = [(k, v)]"
| "Map_set k v ((k', v') # m) = (if k' = k then (k, v) # m else (k', v') # Map_set k v m)"

fun Map_delete :: "'k \<Rightarrow> ('k \<times> 'v) list \<Rightarrow> ('k \<times> 'v) list" where
  "Map_delete k [] = []"
| "Map_delete k ((k', v') # m) = (if k' = k then Map_delete k m else (k', v') # Map_delete k m)"

section \<open>The environment: URI libraries and the runtime\<close>

text \<open>
  The classes \<^verbatim>\<open>URI\<close> (\<^verbatim>\<open>@theia/core/lib/common/uri\<close>) and \<^verbatim>\<open>VSCodeURI\<close> (\<^verbatim>\<open>vscode-uri\<close>) are
  imported by the source and not part of it. Their operations are parameters of the
  model: the constructor \<^verbatim>\<open>new URI(x)\<close> and \<^verbatim>\<open>VSCodeURI.parse(x)\<close> on whatever value they are
  given (\<open>None\<close> when they throw), the two \<^verbatim>\<open>toString()\<close>, \<^verbatim>\<open>VSCodeURI.revive\<close>, and the
  properties that the \<^verbatim>\<open>toJSON()\<close> of a \<^verbatim>\<open>VSCodeURI\<close> adds to \<^verbatim>\<open>$mid: 1\<close>. \<open>Error_stack\<close> is the
  \<^verbatim>\<open>stack\<close> property the runtime gives \<^verbatim>\<open>new Error(message)\<close>, and \<open>ToString\<close> the string the
  runtime converts a value that is not a string to (\<open>None\<close> when the conversion throws).
\<close>

record 'u env =
  URI_new :: "'u jsval \<Rightarrow> 'u option"
  URI_toString :: "'u \<Rightarrow> string"
  VSCodeURI_toJSON :: "'u \<Rightarrow> (string \<times> string) list"
  VSCodeURI_revive :: "'u jsval \<Rightarrow> 'u"
  VSCodeURI_toString :: "'u \<Rightarrow> string"
  VSCodeURI_parse :: "'u jsval \<Rightarrow> 'u option"
  Error_stack :: "string \<Rightarrow> 'u jsval"
  ToString :: "'u jsval \<Rightarrow> string option"

definition new_Error :: "'u env \<Rightarrow> string \<Rightarrow> 'u jsval" where
  "new_Error env msg = JErr (JStr ''Error'') (JStr msg) (Error_stack env msg) JUndefined"

section \<open>JSON text\<close>

definition dquote :: char where
  "dquote = CHR 0x22"

definition backslash :: char where
  "backslash = CHR 0x5C"

definition digit_char :: "nat \<Rightarrow> char" where
  "digit_char d = char_of (48 + d)"

fun digits_of :: "nat \<Rightarrow> string" where
  "digits_of n = (if n < 10 then [digit_char n] else digits_of (n div 10) @ [digit_char (n mod 10)])"

declare digits_of.simps [simp del]

text \<open>\<^verbatim>\<open>String(n)\<close> and the number production of \<^verbatim>\<open>JSON.stringify\<close>, on an integer.\<close>

definition show_int :: "int \<Rightarrow> string" where
  "show_int i = (if i < 0 then CHR ''-'' # digits_of (nat (- i)) else digits_of (nat i))"

definition hexdigit :: "nat \<Rightarrow> char" where
  "hexdigit d = (if d < 10 then char_of (48 + d) else char_of (87 + d))"

text \<open>\<^verbatim>\<open>QuoteJSONString\<close> of ECMAScript, as \<^verbatim>\<open>JSON.stringify\<close> writes a string and a key.\<close>

definition escape_char :: "char \<Rightarrow> string" where
  "escape_char c =
     (if c = dquote then [backslash, dquote]
      else if c = backslash then [backslash, backslash]
      else if c = CHR 0x08 then [backslash, CHR ''b'']
      else if c = CHR 0x0C then [backslash, CHR ''f'']
      else if c = CHR 0x0A then [backslash, CHR ''n'']
      else if c = CHR 0x0D then [backslash, CHR ''r'']
      else if c = CHR 0x09 then [backslash, CHR ''t'']
      else if (of_char c :: nat) < 32 then
        [backslash, CHR ''u'', CHR ''0'', CHR ''0'',
         hexdigit ((of_char c :: nat) div 16), hexdigit ((of_char c :: nat) mod 16)]
      else [c])"

definition QuoteJSONString :: "string \<Rightarrow> string" where
  "QuoteJSONString s = dquote # concat (map escape_char s) @ [dquote]"

text \<open>
  The serialisation proper (\<^verbatim>\<open>SerializeJSONProperty\<close> after the hooks have run): an
  \<^verbatim>\<open>undefined\<close> yields no text, is written \<^verbatim>\<open>null\<close> in an array and leaves its property out
  of an object. A number that is not finite is written \<^verbatim>\<open>null\<close>. An \<^verbatim>\<open>Error\<close> has no
  enumerable property of its own; a token shows its
  flag; the fields of a URI instance are private to its library and not modelled (every
  payload of the protocol passes the replacer, which replaces the instance first).
\<close>

fun serialize :: "'u jsval \<Rightarrow> string option"
and serialize_elements :: "'u jsval list \<Rightarrow> string"
and serialize_members :: "(string \<times> 'u jsval) list \<Rightarrow> string" where
  "serialize JUndefined = None"
| "serialize JNull = Some ''null''"
| "serialize (JBool b) = Some (if b then ''true'' else ''false'')"
| "serialize (JNum n) = Some (show_int n)"
| "serialize (JStr s) = Some (QuoteJSONString s)"
| "serialize (JArr xs) = Some (''['' @ serialize_elements xs @ '']'')"
| "serialize (JObj fs) = Some (''{'' @ serialize_members fs @ ''}'')"
| "serialize (JTheiaURI u) = Some ''{}''"
| "serialize (JVSCodeURI u) = Some ''{}''"
| "serialize (JErr n m st stt) = Some ''{}''"
| "serialize (JToken c) =
     Some (''{'' @ QuoteJSONString ''isCancellationRequested'' @ '':''
           @ (if c then ''true'' else ''false'') @ ''}'')"
| "serialize (JNonFinite x) = Some ''null''"
| "serialize_elements [] = []"
| "serialize_elements [x] = (case serialize x of None \<Rightarrow> ''null'' | Some t \<Rightarrow> t)"
| "serialize_elements (x # y # ys) =
     (case serialize x of None \<Rightarrow> ''null'' | Some t \<Rightarrow> t) @ '','' @ serialize_elements (y # ys)"
| "serialize_members [] = []"
| "serialize_members ((k, x) # fs) =
     (case serialize x of
        None \<Rightarrow> serialize_members fs
      | Some t \<Rightarrow>
          QuoteJSONString k @ '':'' @ t
          @ (if serialize_members fs = [] then [] else '','' @ serialize_members fs))"

text \<open>
  \<^verbatim>\<open>JSON.parse\<close>: the grammar of ECMA-404 on the values of the model, by recursive
  descent. \<open>None\<close> is the \<^verbatim>\<open>SyntaxError\<close>. A number with a fraction or an exponent and a
  \<^verbatim>\<open>\u\<close> escape of a code unit above 255 have no value in the model and are refused too.
\<close>

definition is_ws :: "char \<Rightarrow> bool" where
  "is_ws c = (c = CHR '' '' \<or> c = CHR 0x09 \<or> c = CHR 0x0A \<or> c = CHR 0x0D)"

definition skip_ws :: "string \<Rightarrow> string" where
  "skip_ws s = dropWhile is_ws s"

definition is_digit :: "char \<Rightarrow> bool" where
  "is_digit c = (48 \<le> (of_char c :: nat) \<and> (of_char c :: nat) \<le> 57)"

definition digit_val :: "char \<Rightarrow> nat" where
  "digit_val c = of_char c - 48"

definition parse_nat :: "string \<Rightarrow> (nat \<times> string) option" where
  "parse_nat s =
     (case s of
        [] \<Rightarrow> None
      | c # r \<Rightarrow>
          if c = CHR ''0'' then Some (0, r)
          else if is_digit c then
            Some (foldl (\<lambda>a d. 10 * a + digit_val d) 0 (takeWhile is_digit s),
                  dropWhile is_digit s)
          else None)"

definition parse_int :: "string \<Rightarrow> (int \<times> string) option" where
  "parse_int s =
     (case s of
        [] \<Rightarrow> None
      | c # r \<Rightarrow>
          if c = CHR ''-'' then map_option (\<lambda>(n, r'). (- int n, r')) (parse_nat r)
          else map_option (\<lambda>(n, r'). (int n, r')) (parse_nat s))"

definition parse_number :: "string \<Rightarrow> ('u jsval \<times> string) option" where
  "parse_number s =
     (case parse_int s of
        None \<Rightarrow> None
      | Some (i, r) \<Rightarrow>
          (case r of
             [] \<Rightarrow> Some (JNum i, r)
           | c # r' \<Rightarrow>
               if c = CHR ''.'' \<or> c = CHR ''e'' \<or> c = CHR ''E'' then None
               else Some (JNum i, r)))"

fun strip_prefix :: "string \<Rightarrow> string \<Rightarrow> string option" where
  "strip_prefix [] s = Some s"
| "strip_prefix (p # ps) [] = None"
| "strip_prefix (p # ps) (c # cs) = (if p = c then strip_prefix ps cs else None)"

definition parse_literal :: "string \<Rightarrow> ('u jsval \<times> string) option" where
  "parse_literal s =
     (case strip_prefix ''true'' s of
        Some r \<Rightarrow> Some (JBool True, r)
      | None \<Rightarrow>
          (case strip_prefix ''false'' s of
             Some r \<Rightarrow> Some (JBool False, r)
           | None \<Rightarrow>
               (case strip_prefix ''null'' s of
                  Some r \<Rightarrow> Some (JNull, r)
                | None \<Rightarrow> None)))"

definition hex_val :: "char \<Rightarrow> nat option" where
  "hex_val c =
     (let n = (of_char c :: nat) in
      if 48 \<le> n \<and> n \<le> 57 then Some (n - 48)
      else if 97 \<le> n \<and> n \<le> 102 then Some (n - 87)
      else if 65 \<le> n \<and> n \<le> 70 then Some (n - 55)
      else None)"

definition hex4 :: "char \<Rightarrow> char \<Rightarrow> char \<Rightarrow> char \<Rightarrow> char option" where
  "hex4 a b c d =
     (case (hex_val a, hex_val b, hex_val c, hex_val d) of
        (Some x, Some y, Some z, Some w) \<Rightarrow>
          (if x = 0 \<and> y = 0 then Some (char_of (16 * z + w)) else None)
      | _ \<Rightarrow> None)"

definition unescape :: "char \<Rightarrow> char option" where
  "unescape e =
     (if e = dquote then Some dquote
      else if e = backslash then Some backslash
      else if e = CHR ''/'' then Some (CHR ''/'')
      else if e = CHR ''b'' then Some (CHR 0x08)
      else if e = CHR ''f'' then Some (CHR 0x0C)
      else if e = CHR ''n'' then Some (CHR 0x0A)
      else if e = CHR ''r'' then Some (CHR 0x0D)
      else if e = CHR ''t'' then Some (CHR 0x09)
      else None)"

text \<open>The characters of a string after its opening quote, up to the closing one.\<close>

fun parse_chars :: "string \<Rightarrow> (string \<times> string) option" where
  "parse_chars [] = None"
| "parse_chars (c # r) =
     (if c = dquote then Some ([], r)
      else if c = backslash then
        (case r of
           [] \<Rightarrow> None
         | e # r1 \<Rightarrow>
             if e = CHR ''u'' then
               (case r1 of
                  a # b # c' # d # r2 \<Rightarrow>
                    (case hex4 a b c' d of
                       None \<Rightarrow> None
                     | Some ch \<Rightarrow> map_option (\<lambda>(t, r3). (ch # t, r3)) (parse_chars r2))
                | _ \<Rightarrow> None)
             else
               (case unescape e of
                  None \<Rightarrow> None
                | Some ch \<Rightarrow> map_option (\<lambda>(t, r3). (ch # t, r3)) (parse_chars r1)))
      else if (of_char c :: nat) < 32 then None
      else map_option (\<lambda>(t, r3). (c # t, r3)) (parse_chars r))"

text \<open>
  An object literal that names a key twice keeps the key's first place and its last
  value.
\<close>

definition members_to_object :: "(string \<times> 'u jsval) list \<Rightarrow> 'u jsval" where
  "members_to_object ms = JObj (foldl (\<lambda>fs (k, x). Map_set k x fs) [] ms)"

text \<open>
  The recursion is on a fuel argument; every call consumes a character, so the length
  of the text is fuel enough (\<open>JSON_parse\<close> below).
\<close>

fun parse_value :: "nat \<Rightarrow> string \<Rightarrow> ('u jsval \<times> string) option"
and parse_elements :: "nat \<Rightarrow> string \<Rightarrow> ('u jsval list \<times> string) option"
and parse_members :: "nat \<Rightarrow> string \<Rightarrow> ((string \<times> 'u jsval) list \<times> string) option" where
  "parse_value 0 s = None"
| "parse_value (Suc n) s =
     (case s of
        [] \<Rightarrow> None
      | c # r \<Rightarrow>
          if c = CHR ''['' then
            (case skip_ws r of
               [] \<Rightarrow> None
             | c' # r' \<Rightarrow>
                 if c' = CHR '']'' then Some (JArr [], r')
                 else map_option (\<lambda>(xs, r''). (JArr xs, r'')) (parse_elements n (c' # r')))
          else if c = CHR ''{'' then
            (case skip_ws r of
               [] \<Rightarrow> None
             | c' # r' \<Rightarrow>
                 if c' = CHR ''}'' then Some (JObj [], r')
                 else map_option (\<lambda>(ms, r''). (members_to_object ms, r''))
                        (parse_members n (c' # r')))
          else if c = dquote then map_option (\<lambda>(t, r'). (JStr t, r')) (parse_chars r)
          else if c = CHR ''-'' \<or> is_digit c then parse_number s
          else parse_literal s)"
| "parse_elements 0 s = None"
| "parse_elements (Suc n) s =
     (case parse_value n s of
        None \<Rightarrow> None
      | Some (x, r) \<Rightarrow>
          (case skip_ws r of
             [] \<Rightarrow> None
           | c # r' \<Rightarrow>
               if c = CHR '','' then
                 map_option (\<lambda>(xs, r''). (x # xs, r'')) (parse_elements n (skip_ws r'))
               else if c = CHR '']'' then Some ([x], r')
               else None))"
| "parse_members 0 s = None"
| "parse_members (Suc n) s =
     (case s of
        [] \<Rightarrow> None
      | c # r \<Rightarrow>
          if c \<noteq> dquote then None
          else
            (case parse_chars r of
               None \<Rightarrow> None
             | Some (k, r1) \<Rightarrow>
                 (case skip_ws r1 of
                    [] \<Rightarrow> None
                  | c1 # r2 \<Rightarrow>
                      if c1 \<noteq> CHR '':'' then None
                      else
                        (case parse_value n (skip_ws r2) of
                           None \<Rightarrow> None
                         | Some (x, r3) \<Rightarrow>
                             (case skip_ws r3 of
                                [] \<Rightarrow> None
                              | c3 # r4 \<Rightarrow>
                                  if c3 = CHR '','' then
                                    map_option (\<lambda>(ms, r5). ((k, x) # ms, r5))
                                      (parse_members n (skip_ws r4))
                                  else if c3 = CHR ''}'' then Some ([(k, x)], r4)
                                  else None)))))"

definition JSON_parse :: "string \<Rightarrow> 'u jsval option" where
  "JSON_parse s =
     (case parse_value (Suc (length s)) (skip_ws s) of
        None \<Rightarrow> None
      | Some (v, r) \<Rightarrow> if skip_ws r = [] then Some v else None)"

section \<open>The hooks of JSON.stringify and JSON.parse\<close>

text \<open>
  \<^verbatim>\<open>JSON.stringify(value, replacer)\<close> visits the value top-down: it calls \<^verbatim>\<open>toJSON\<close> where the
  value has one (a \<^verbatim>\<open>VSCodeURI\<close>, as the comment in \<^verbatim>\<open>replacer\<close> says), then the replacer,
  and goes on into the properties of the result. Where the replacer returns a new value
  it is one of the tagged records below, whose properties are a number and a string that
  no hook changes, so the visit stops there.
\<close>

definition toJSON :: "'u env \<Rightarrow> 'u jsval \<Rightarrow> 'u jsval" where
  "toJSON env v =
     (case v of
        JVSCodeURI w \<Rightarrow>
          JObj ((''$mid'', JNum 1) # map (\<lambda>(k, s). (k, JStr s)) (VSCodeURI_toJSON env w))
      | _ \<Rightarrow> v)"

fun prepare :: "'u env \<Rightarrow> ('u jsval \<Rightarrow> 'u jsval) \<Rightarrow> 'u jsval \<Rightarrow> 'u jsval"
and prepare_elements :: "'u env \<Rightarrow> ('u jsval \<Rightarrow> 'u jsval) \<Rightarrow> 'u jsval list \<Rightarrow> 'u jsval list"
and prepare_members ::
  "'u env \<Rightarrow> ('u jsval \<Rightarrow> 'u jsval) \<Rightarrow> (string \<times> 'u jsval) list \<Rightarrow> (string \<times> 'u jsval) list" where
  "prepare env r (JArr xs) =
     (if r (JArr xs) = JArr xs then JArr (prepare_elements env r xs) else r (JArr xs))"
| "prepare env r (JObj fs) =
     (if r (JObj fs) = JObj fs then JObj (prepare_members env r fs) else r (JObj fs))"
| "prepare env r (JVSCodeURI w) = r (toJSON env (JVSCodeURI w))"
| "prepare env r JUndefined = r JUndefined"
| "prepare env r JNull = r JNull"
| "prepare env r (JBool b) = r (JBool b)"
| "prepare env r (JNum n) = r (JNum n)"
| "prepare env r (JStr s) = r (JStr s)"
| "prepare env r (JTheiaURI u) = r (JTheiaURI u)"
| "prepare env r (JErr n m st stt) = r (JErr n m st stt)"
| "prepare env r (JToken c) = r (JToken c)"
| "prepare env r (JNonFinite x) = r (JNonFinite x)"
| "prepare_elements env r [] = []"
| "prepare_elements env r (x # xs) = prepare env r x # prepare_elements env r xs"
| "prepare_members env r [] = []"
| "prepare_members env r ((k, x) # fs) = (k, prepare env r x) # prepare_members env r fs"

text \<open>
  \<^verbatim>\<open>JSON.stringify(v, r)\<close>; \<open>None\<close> is the result \<^verbatim>\<open>undefined\<close>. Without a replacer \<open>r\<close> is the
  identity.
\<close>

definition JSON_stringify :: "'u env \<Rightarrow> ('u jsval \<Rightarrow> 'u jsval) \<Rightarrow> 'u jsval \<Rightarrow> string option" where
  "JSON_stringify env r v = serialize (prepare env r v)"

text \<open>A template literal writes \<^verbatim>\<open>undefined\<close> for the result of \<^verbatim>\<open>JSON.stringify\<close> that is no text.\<close>

definition template_text :: "string option \<Rightarrow> string" where
  "template_text t = (case t of None \<Rightarrow> ''undefined'' | Some x \<Rightarrow> x)"

text \<open>
  \<^verbatim>\<open>JSON.parse(text, reviver)\<close> visits the parsed value bottom-up; a property whose revived
  value is \<^verbatim>\<open>undefined\<close> is deleted (an array keeps the hole). The first hook that throws
  ends the parse.
\<close>

fun internalize :: "('u jsval \<Rightarrow> exn + 'u jsval) \<Rightarrow> 'u jsval \<Rightarrow> exn + 'u jsval"
and internalize_elements :: "('u jsval \<Rightarrow> exn + 'u jsval) \<Rightarrow> 'u jsval list \<Rightarrow> exn + 'u jsval list"
and internalize_members ::
  "('u jsval \<Rightarrow> exn + 'u jsval) \<Rightarrow> (string \<times> 'u jsval) list \<Rightarrow> exn + (string \<times> 'u jsval) list" where
  "internalize r (JArr xs) =
     (case internalize_elements r xs of Inl e \<Rightarrow> Inl e | Inr ys \<Rightarrow> r (JArr ys))"
| "internalize r (JObj fs) =
     (case internalize_members r fs of Inl e \<Rightarrow> Inl e | Inr gs \<Rightarrow> r (JObj gs))"
| "internalize r JUndefined = r JUndefined"
| "internalize r JNull = r JNull"
| "internalize r (JBool b) = r (JBool b)"
| "internalize r (JNum n) = r (JNum n)"
| "internalize r (JStr s) = r (JStr s)"
| "internalize r (JTheiaURI u) = r (JTheiaURI u)"
| "internalize r (JVSCodeURI u) = r (JVSCodeURI u)"
| "internalize r (JErr n m st stt) = r (JErr n m st stt)"
| "internalize r (JToken c) = r (JToken c)"
| "internalize r (JNonFinite x) = r (JNonFinite x)"
| "internalize_elements r [] = Inr []"
| "internalize_elements r (x # xs) =
     (case internalize r x of
        Inl e \<Rightarrow> Inl e
      | Inr y \<Rightarrow>
          (case internalize_elements r xs of Inl e \<Rightarrow> Inl e | Inr ys \<Rightarrow> Inr (y # ys)))"
| "internalize_members r [] = Inr []"
| "internalize_members r ((k, x) # fs) =
     (case internalize r x of
        Inl e \<Rightarrow> Inl e
      | Inr y \<Rightarrow>
          (case internalize_members r fs of
             Inl e \<Rightarrow> Inl e
           | Inr gs \<Rightarrow> Inr (if y = JUndefined then gs else (k, y) # gs)))"

definition JSON_parse_reviver :: "('u jsval \<Rightarrow> exn + 'u jsval) \<Rightarrow> string \<Rightarrow> exn + 'u jsval" where
  "JSON_parse_reviver r text =
     (case JSON_parse text of None \<Rightarrow> Inl SyntaxError | Some v \<Rightarrow> internalize r v)"

section \<open>ObjectsTransferrer\<close>

text \<open>
  Modelled from the spec: \<^verbatim>\<open>Range.is\<close>, \<^verbatim>\<open>Position.is\<close>, \<^verbatim>\<open>Range.create\<close> and
  \<^verbatim>\<open>Position.create\<close> of \<^verbatim>\<open>vscode-languageserver-protocol\<close> are not under src/. The spec's
  "line/column text range" is an object whose \<^verbatim>\<open>start\<close> and \<^verbatim>\<open>end\<close> are objects with a
  numeric \<^verbatim>\<open>line\<close> and \<^verbatim>\<open>character\<close> (\<^verbatim>\<open>typeof\<close> gives \<^verbatim>\<open>number\<close>, which \<^verbatim>\<open>NaN\<close> and the
  infinities meet). \<^verbatim>\<open>Position.create\<close> builds the object of its two arguments;
  \<^verbatim>\<open>Range.create\<close> builds the range of two positions and throws when one of them is not a
  position.
\<close>

definition is_number :: "'u jsval \<Rightarrow> bool" where
  "is_number v = (case v of JNum n \<Rightarrow> True | JNonFinite x \<Rightarrow> True | _ \<Rightarrow> False)"

definition Position_is :: "'u jsval \<Rightarrow> bool" where
  "Position_is v =
     (case v of
        JObj fs \<Rightarrow> is_number (js_get v ''line'') \<and> is_number (js_get v ''character'')
      | _ \<Rightarrow> False)"

definition Range_is :: "'u jsval \<Rightarrow> bool" where
  "Range_is v =
     (case v of
        JObj fs \<Rightarrow> Position_is (js_get v ''start'') \<and> Position_is (js_get v ''end'')
      | _ \<Rightarrow> False)"

definition Position_create :: "'u jsval \<Rightarrow> 'u jsval \<Rightarrow> 'u jsval" where
  "Position_create line character = JObj [(''line'', line), (''character'', character)]"

definition Range_create :: "'u jsval \<Rightarrow> 'u jsval \<Rightarrow> exn + 'u jsval" where
  "Range_create start end' =
     (if Position_is start \<and> Position_is end' then Inr (JObj [(''start'', start), (''end'', end')])
      else Inl InvalidArguments)"

text \<open>\<^verbatim>\<open>enum SerializedObjectType\<close> and \<^verbatim>\<open>interface SerializedObject\<close>.\<close>

definition THEIA_URI :: int where "THEIA_URI = 0"
definition VSCODE_URI :: int where "VSCODE_URI = 1"
definition THEIA_RANGE :: int where "THEIA_RANGE = 2"

definition SerializedObject :: "int \<Rightarrow> 'u jsval \<Rightarrow> 'u jsval" where
  "SerializedObject t d = JObj [(''$type'', JNum t), (''data'', d)]"

definition text_value :: "string option \<Rightarrow> 'u jsval" where
  "text_value t = (case t of None \<Rightarrow> JUndefined | Some x \<Rightarrow> JStr x)"

definition replacer :: "'u env \<Rightarrow> 'u jsval \<Rightarrow> 'u jsval" where
  "replacer env v =
     (case v of
        JTheiaURI u \<Rightarrow> SerializedObject THEIA_URI (JStr (URI_toString env u))
      | _ \<Rightarrow>
          if Range_is v then
            (let range = v;
                 serializedValue =
                   JObj [(''start'',
                          JObj [(''line'', js_get (js_get range ''start'') ''line''),
                                (''character'', js_get (js_get range ''start'') ''character'')]),
                         (''end'',
                          JObj [(''line'', js_get (js_get range ''end'') ''line''),
                                (''character'', js_get (js_get range ''end'') ''character'')])]
             in SerializedObject THEIA_RANGE
                  (text_value (JSON_stringify env (\<lambda>x. x) serializedValue)))
          else if truthy v \<and> js_get v ''$mid'' = JNum 1 then
            SerializedObject VSCODE_URI
              (JStr (VSCodeURI_toString env (VSCodeURI_revive env v)))
          else v)"

definition isSerializedObject :: "'u jsval \<Rightarrow> bool" where
  "isSerializedObject obj =
     (truthy obj \<and> js_get obj ''$type'' \<noteq> JUndefined \<and> js_get obj ''data'' \<noteq> JUndefined)"

text \<open>
  \<^verbatim>\<open>JSON.parse(x)\<close> on a value of any type: a string is parsed as it is, another value
  is converted to a string first.
\<close>

definition JSON_parse_any :: "'u env \<Rightarrow> 'u jsval \<Rightarrow> exn + 'u jsval" where
  "JSON_parse_any env x =
     (case (case x of JStr d \<Rightarrow> Some d | _ \<Rightarrow> ToString env x) of
        None \<Rightarrow> Inl TypeError
      | Some d \<Rightarrow> (case JSON_parse d of None \<Rightarrow> Inl SyntaxError | Some obj \<Rightarrow> Inr obj))"

text \<open>
  \<^verbatim>\<open>obj.start.line\<close> throws where \<^verbatim>\<open>obj\<close> or \<^verbatim>\<open>obj.start\<close> is \<^verbatim>\<open>null\<close> or \<^verbatim>\<open>undefined\<close>.
\<close>

definition revive_range :: "'u jsval \<Rightarrow> exn + 'u jsval" where
  "revive_range obj =
     (case get_member obj ''start'' of
        Inl e \<Rightarrow> Inl e
      | Inr s1 \<Rightarrow>
          (case get_member s1 ''line'' of
             Inl e \<Rightarrow> Inl e
           | Inr sl \<Rightarrow>
               (case get_member s1 ''character'' of
                  Inl e \<Rightarrow> Inl e
                | Inr sc \<Rightarrow>
                    (case get_member obj ''end'' of
                       Inl e \<Rightarrow> Inl e
                     | Inr e1 \<Rightarrow>
                         (case get_member e1 ''line'' of
                            Inl e \<Rightarrow> Inl e
                          | Inr el \<Rightarrow>
                              (case get_member e1 ''character'' of
                                 Inl e \<Rightarrow> Inl e
                               | Inr ec \<Rightarrow>
                                   Range_create (Position_create sl sc)
                                     (Position_create el ec)))))))"

text \<open>
  \<open>reviver\<close> hands \<^verbatim>\<open>value.data\<close> to the constructor, to \<^verbatim>\<open>VSCodeURI.parse\<close> or to \<^verbatim>\<open>JSON.parse\<close>
  without looking at its type.
\<close>

definition reviver :: "'u env \<Rightarrow> 'u jsval \<Rightarrow> exn + 'u jsval" where
  "reviver env v =
     (if isSerializedObject v then
        if js_get v ''$type'' = JNum THEIA_URI then
          (case URI_new env (js_get v ''data'') of
             None \<Rightarrow> Inl UriError
           | Some u \<Rightarrow> Inr (JTheiaURI u))
        else if js_get v ''$type'' = JNum VSCODE_URI then
          (case VSCodeURI_parse env (js_get v ''data'') of
             None \<Rightarrow> Inl UriError
           | Some u \<Rightarrow> Inr (JVSCodeURI u))
        else if js_get v ''$type'' = JNum THEIA_RANGE then
          (case JSON_parse_any env (js_get v ''data'') of
             Inl e \<Rightarrow> Inl e
           | Inr obj \<Rightarrow> revive_range obj)
        else Inr v
      else Inr v)"

section \<open>MessageFactory\<close>

text \<open>A template literal puts a string between quotes as it is: nothing is escaped.\<close>

definition quoted :: "string \<Rightarrow> string" where
  "quoted s = dquote # s @ [dquote]"

definition hostID_prefix :: "string option \<Rightarrow> string" where
  "hostID_prefix messageToSendHostId =
     (case messageToSendHostId of
        None \<Rightarrow> []
      | Some h \<Rightarrow> if h = [] then [] else quoted ''hostID'' @ '':'' @ quoted h @ '','')"

definition MessageFactory_cancel :: "string \<Rightarrow> string option \<Rightarrow> string" where
  "MessageFactory_cancel req messageToSendHostId =
     ''{'' @ hostID_prefix messageToSendHostId @ quoted ''type'' @ '':4,''
     @ quoted ''id'' @ '':'' @ quoted req @ ''}''"

definition MessageFactory_request ::
  "'u env \<Rightarrow> string \<Rightarrow> string \<Rightarrow> string \<Rightarrow> 'u jsval list \<Rightarrow> string option \<Rightarrow> string" where
  "MessageFactory_request env req rpcId methodName args messageToSendHostId =
     ''{'' @ hostID_prefix messageToSendHostId @ quoted ''type'' @ '':1,''
     @ quoted ''id'' @ '':'' @ quoted req @ '',''
     @ quoted ''proxyId'' @ '':'' @ quoted rpcId @ '',''
     @ quoted ''method'' @ '':'' @ quoted methodName @ '',''
     @ quoted ''args'' @ '':'' @ template_text (JSON_stringify env (replacer env) (JArr args))
     @ ''}''"

definition MessageFactory_replyOK ::
  "'u env \<Rightarrow> string \<Rightarrow> 'u jsval \<Rightarrow> string option \<Rightarrow> string" where
  "MessageFactory_replyOK env req res messageToSendHostId =
     (if res = JUndefined then
        ''{'' @ hostID_prefix messageToSendHostId @ quoted ''type'' @ '':2,''
        @ quoted ''id'' @ '':'' @ quoted req @ ''}''
      else
        ''{'' @ hostID_prefix messageToSendHostId @ quoted ''type'' @ '':2,''
        @ quoted ''id'' @ '':'' @ quoted req @ '',''
        @ quoted ''res'' @ '':'' @ template_text (JSON_stringify env (replacer env) res)
        @ ''}'')"

text \<open>\<^verbatim>\<open>transformErrorForSerialization\<close>; \<^verbatim>\<open>a || b\<close> is \<^verbatim>\<open>a\<close> when \<^verbatim>\<open>a\<close> is truthy.\<close>

definition is_Error :: "'u jsval \<Rightarrow> bool" where
  "is_Error v = (case v of JErr n m st stt \<Rightarrow> True | _ \<Rightarrow> False)"

definition transformErrorForSerialization :: "'u jsval \<Rightarrow> 'u jsval" where
  "transformErrorForSerialization error =
     (if is_Error error then
        (let name = js_get error ''name'';
             message = js_get error ''message'';
             stack = (if truthy (js_get error ''stacktrace'') then js_get error ''stacktrace''
                      else js_get error ''stack'')
         in JObj [(''$isError'', JBool True), (''name'', name), (''message'', message),
                  (''stack'', stack)])
      else error)"

definition MessageFactory_replyErr ::
  "'u env \<Rightarrow> string \<Rightarrow> 'u jsval \<Rightarrow> string option \<Rightarrow> string" where
  "MessageFactory_replyErr env req err messageToSendHostId =
     (let err1 = (case err of JStr s \<Rightarrow> new_Error env s | _ \<Rightarrow> err) in
      if is_Error err1 then
        ''{'' @ hostID_prefix messageToSendHostId @ quoted ''type'' @ '':3,''
        @ quoted ''id'' @ '':'' @ quoted req @ '',''
        @ quoted ''err'' @ '':''
        @ template_text (JSON_stringify env (\<lambda>x. x) (transformErrorForSerialization err1))
        @ ''}''
      else
        ''{'' @ hostID_prefix messageToSendHostId @ quoted ''type'' @ '':3,''
        @ quoted ''id'' @ '':'' @ quoted req @ '',''
        @ quoted ''err'' @ '':null}'')"

section \<open>RPCMultiplexer\<close>

text \<open>
  What an operation does to the world outside the engine is a list of effects: a
  \<^verbatim>\<open>Deferred\<close> is resolved or rejected, a flush is scheduled (\<^verbatim>\<open>setImmediate\<close> or
  \<^verbatim>\<open>setTimeout\<close>), a batch goes to the connection, a callback is subscribed to the
  caller's cancellation token, a cancellation source fires, a registered instance is
  disposed. A \<^verbatim>\<open>Deferred\<close> is known by the number of the call it was created for.
\<close>

type_synonym deferred = nat

datatype 'u effect =
    Resolve deferred "'u jsval"
  | Reject deferred "'u jsval"
  | SetImmediate
  | ConnectionSend "string list"
  | OnCancellationRequested string
  | SourceCancelled string
  | InstanceDisposed string

text \<open>
  Modelled from the spec: \<^verbatim>\<open>DisposableCollection\<close> of \<^verbatim>\<open>@theia/core/lib/common/disposable\<close>
  is not under src/. It is the list of the disposables pushed to it. \<^verbatim>\<open>dispose()\<close> disposes
  every one of them once, in the order the spec lists them, and leaves the collection
  empty, and a second \<^verbatim>\<open>dispose()\<close> does nothing; the collection counts as disposed when it
  is empty, which is why the engine's starts with a disposable that does nothing
  (\<^verbatim>\<open>/* mark as no disposed */\<close> in the source).
\<close>

datatype mux_disposable = ClearMessagesToSend | StopListening

record RPCMultiplexer =
  messagesToSend :: "string list"
  mux_toDispose :: "mux_disposable list"

fun mux_dispose_one :: "mux_disposable \<Rightarrow> RPCMultiplexer \<Rightarrow> RPCMultiplexer" where
  "mux_dispose_one ClearMessagesToSend m = m\<lparr>messagesToSend := []\<rparr>"
| "mux_dispose_one StopListening m = m"

definition RPCMultiplexer_dispose :: "RPCMultiplexer \<Rightarrow> RPCMultiplexer" where
  "RPCMultiplexer_dispose m =
     (if mux_toDispose m = [] then m
      else (fold mux_dispose_one (mux_toDispose m) m)\<lparr>mux_toDispose := []\<rparr>)"

definition send :: "RPCMultiplexer \<Rightarrow> string \<Rightarrow> exn + (RPCMultiplexer \<times> 'u effect list)" where
  "send m msg =
     (if mux_toDispose m = [] then Inl ConnectionClosed
      else Inr (m\<lparr>messagesToSend := messagesToSend m @ [msg]\<rparr>,
                if messagesToSend m = [] then [SetImmediate] else []))"

definition sendAccumulated :: "RPCMultiplexer \<Rightarrow> RPCMultiplexer \<times> 'u effect list" where
  "sendAccumulated m = (m\<lparr>messagesToSend := []\<rparr>, [ConnectionSend (messagesToSend m)])"

definition RPCMultiplexer_new :: "string option \<Rightarrow> exn + (RPCMultiplexer \<times> 'u effect list)" where
  "RPCMultiplexer_new remoteHostId =
     (let m = \<lparr>messagesToSend = [], mux_toDispose = [ClearMessagesToSend, StopListening]\<rparr> in
      case remoteHostId of
        None \<Rightarrow> Inr (m, [])
      | Some h \<Rightarrow>
          if h = [] then Inr (m, [])
          else send m (''{'' @ quoted ''setHostID'' @ '':'' @ quoted h @ ''}''))"

section \<open>RPCProtocolImpl\<close>

text \<open>
  A registered instance is the list of its members. A function member is what a call of
  it does with the arguments: it returns a value, throws, or returns a promise that
  settles later. A handler that calls back into the engine is outside the model.
\<close>

datatype 'u behaviour = Returns "'u jsval" | Throws "'u jsval" | ReturnsPromise

datatype 'u member = Method "'u jsval list \<Rightarrow> 'u behaviour" | Field "'u jsval"

type_synonym 'u actor = "(string \<times> 'u member) list"

datatype CancellationTokenSource = TokenSource bool

datatype disposable =
    MarkAsNotDisposed
  | MultiplexorDisposable
  | ClearProxiesAndReplies
  | InstanceDisposable string
  | DeleteLocal string

record 'u RPCProtocolImpl =
  locals :: "(string \<times> 'u actor) list"
  proxies :: "string list"
  lastMessageId :: nat
  cancellationTokenSources :: "(string \<times> CancellationTokenSource) list"
  pendingRPCReplies :: "(string \<times> deferred) list"
  multiplexor :: RPCMultiplexer
  messageToSendHostId :: "string option"
  remoteHostID :: "string option"
  toDispose :: "disposable list"

definition RPCProtocolImpl_new :: "string option \<Rightarrow> exn + ('u RPCProtocolImpl \<times> 'u effect list)" where
  "RPCProtocolImpl_new remoteHostID' =
     (case RPCMultiplexer_new remoteHostID' of
        Inl e \<Rightarrow> Inl e
      | Inr (m, effs) \<Rightarrow>
          Inr (\<lparr>locals = [], proxies = [], lastMessageId = 0, cancellationTokenSources = [],
                pendingRPCReplies = [], multiplexor = m, messageToSendHostId = None,
                remoteHostID = remoteHostID',
                toDispose = [MarkAsNotDisposed, MultiplexorDisposable, ClearProxiesAndReplies]\<rparr>,
               effs))"

definition isDisposed :: "'u RPCProtocolImpl \<Rightarrow> bool" where
  "isDisposed s = (toDispose s = [])"

fun dispose_one ::
  "'u env \<Rightarrow> disposable \<Rightarrow> 'u RPCProtocolImpl \<times> 'u effect list
   \<Rightarrow> 'u RPCProtocolImpl \<times> 'u effect list" where
  "dispose_one env MarkAsNotDisposed (s, effs) = (s, effs)"
| "dispose_one env MultiplexorDisposable (s, effs) =
     (s\<lparr>multiplexor := RPCMultiplexer_dispose (multiplexor s)\<rparr>, effs)"
| "dispose_one env ClearProxiesAndReplies (s, effs) =
     (s\<lparr>proxies := [], pendingRPCReplies := []\<rparr>,
      effs @ map (\<lambda>(k, reply). Reject reply (new_Error env ''connection is closed''))
               (pendingRPCReplies s))"
| "dispose_one env (InstanceDisposable i) (s, effs) = (s, effs @ [InstanceDisposed i])"
| "dispose_one env (DeleteLocal i) (s, effs) = (s\<lparr>locals := Map_delete i (locals s)\<rparr>, effs)"

definition dispose :: "'u env \<Rightarrow> 'u RPCProtocolImpl \<Rightarrow> 'u RPCProtocolImpl \<times> 'u effect list" where
  "dispose env s =
     (if isDisposed s then (s, [])
      else (case fold (dispose_one env) (toDispose s) (s, []) of
              (s1, effs) \<Rightarrow> (s1\<lparr>toDispose := []\<rparr>, effs)))"

text \<open>\<^verbatim>\<open>getProxy\<close>: the proxy of an id is known by the id; the cache holds the ids.\<close>

definition getProxy :: "'u RPCProtocolImpl \<Rightarrow> string \<Rightarrow> exn + 'u RPCProtocolImpl" where
  "getProxy s proxyId =
     (if isDisposed s then Inl ConnectionClosed
      else Inr (if proxyId \<in> set (proxies s) then s else s\<lparr>proxies := proxies s @ [proxyId]\<rparr>))"

definition Disposable_is :: "'u actor \<Rightarrow> bool" where
  "Disposable_is instance =
     (case Map_get instance ''dispose'' of Some (Method f) \<Rightarrow> True | _ \<Rightarrow> False)"

definition set_instance :: "'u RPCProtocolImpl \<Rightarrow> string \<Rightarrow> 'u actor \<Rightarrow> exn + 'u RPCProtocolImpl" where
  "set_instance s identifier instance =
     (if isDisposed s then Inl ConnectionClosed
      else Inr (s\<lparr>locals := Map_set identifier instance (locals s),
                  toDispose := toDispose s
                    @ (if Disposable_is instance then [InstanceDisposable identifier] else [])
                    @ [DeleteLocal identifier]\<rparr>))"

definition CancellationToken_is :: "'u jsval \<Rightarrow> bool" where
  "CancellationToken_is v = (case v of JToken c \<Rightarrow> True | _ \<Rightarrow> False)"

definition canceled :: "'u env \<Rightarrow> 'u jsval" where
  "canceled env =
     (let error = new_Error env ''Canceled'' in
      JErr (js_get error ''message'') (js_get error ''message'') (js_get error ''stack'')
        (js_get error ''stacktrace''))"

text \<open>The promise a call returns: rejected from the start, or the one of a \<^verbatim>\<open>Deferred\<close>.\<close>

datatype 'u promise = RejectedPromise "'u jsval" | DeferredPromise deferred

text \<open>
  \<^verbatim>\<open>remoteCall\<close> returns the engine, the contents of the array \<^verbatim>\<open>args\<close> after the call (the
  source pops from and pushes to the caller's array), the effects, and the promise or
  the exception of \<^verbatim>\<open>send\<close>.
\<close>

definition remoteCall ::
  "'u env \<Rightarrow> 'u RPCProtocolImpl \<Rightarrow> string \<Rightarrow> string \<Rightarrow> 'u jsval list
   \<Rightarrow> 'u RPCProtocolImpl \<times> 'u jsval list \<times> 'u effect list \<times> (exn + 'u promise)" where
  "remoteCall env s proxyId methodName args =
     (if isDisposed s then
        (s, args, [], Inr (RejectedPromise (new_Error env ''connection is closed'')))
      else
        let hasToken = (args \<noteq> [] \<and> CancellationToken_is (last args));
            cancellationToken = (if hasToken then last args else JUndefined);
            args1 = (if hasToken then butlast args else args)
        in
          if truthy cancellationToken
             \<and> truthy (js_get cancellationToken ''isCancellationRequested'')
          then (s, args1, [], Inr (RejectedPromise (canceled env)))
          else
            let n = Suc (lastMessageId s);
                callId = digits_of n;
                result = n;
                args2 = (if truthy cancellationToken
                         then args1 @ [JStr ''add.cancellation.token''] else args1);
                effs1 = (if truthy cancellationToken
                         then [OnCancellationRequested callId] else []);
                s1 = s\<lparr>lastMessageId := n,
                       pendingRPCReplies := Map_set callId result (pendingRPCReplies s)\<rparr>
            in
              (case send (multiplexor s1)
                      (MessageFactory_request env callId proxyId methodName args2
                         (messageToSendHostId s1)) of
                 Inl e \<Rightarrow> (s1, args2, effs1, Inl e)
               | Inr (m, effs2) \<Rightarrow>
                   (s1\<lparr>multiplexor := m\<rparr>, args2, effs1 @ effs2,
                    Inr (DeferredPromise result))))"

text \<open>The callback \<^verbatim>\<open>remoteCall\<close> subscribes to the caller's token, when the token fires.\<close>

definition onCancellationRequested ::
  "'u RPCProtocolImpl \<Rightarrow> string \<Rightarrow> exn + ('u RPCProtocolImpl \<times> 'u effect list)" where
  "onCancellationRequested s callId =
     (case send (multiplexor s) (MessageFactory_cancel callId (messageToSendHostId s)) of
        Inl e \<Rightarrow> Inl e
      | Inr (m, effs) \<Rightarrow> Inr (s\<lparr>multiplexor := m\<rparr>, effs))"

text \<open>
  \<^verbatim>\<open>createProxy\<close>: a member whose name starts with \<^verbatim>\<open>$\<close> (char code 36) is a function that
  calls \<^verbatim>\<open>remoteCall\<close> with the array of its arguments; any other member is \<^verbatim>\<open>undefined\<close>,
  and calling it throws.
\<close>

definition proxy_call ::
  "'u env \<Rightarrow> 'u RPCProtocolImpl \<Rightarrow> string \<Rightarrow> string \<Rightarrow> 'u jsval list
   \<Rightarrow> 'u RPCProtocolImpl \<times> 'u jsval list \<times> 'u effect list \<times> (exn + 'u promise)" where
  "proxy_call env s proxyId name myArgs =
     (case name of
        [] \<Rightarrow> (s, myArgs, [], Inl TypeError)
      | c # cs \<Rightarrow>
          if (of_char c :: nat) = 36 then remoteCall env s proxyId name myArgs
          else (s, myArgs, [], Inl TypeError))"

definition receiveCancel ::
  "'u RPCProtocolImpl \<Rightarrow> string \<Rightarrow> 'u RPCProtocolImpl \<times> 'u effect list" where
  "receiveCancel s msg_id =
     (case Map_get (cancellationTokenSources s) msg_id of
        None \<Rightarrow> (s, [])
      | Some cancellationTokenSource \<Rightarrow>
          (s\<lparr>cancellationTokenSources :=
               Map_set msg_id (TokenSource True) (cancellationTokenSources s)\<rparr>,
           [SourceCancelled msg_id]))"

definition doInvokeHandler ::
  "'u env \<Rightarrow> 'u RPCProtocolImpl \<Rightarrow> string \<Rightarrow> string \<Rightarrow> 'u jsval list \<Rightarrow> 'u behaviour" where
  "doInvokeHandler env s proxyId methodName args =
     (case Map_get (locals s) proxyId of
        None \<Rightarrow> Throws (new_Error env (''Unknown actor '' @ proxyId))
      | Some actor \<Rightarrow>
          (case Map_get actor methodName of
             Some (Method f) \<Rightarrow> f args
           | _ \<Rightarrow>
               Throws (new_Error env
                 (''Unknown method '' @ methodName @ '' on actor '' @ proxyId))))"

text \<open>The promise of \<^verbatim>\<open>invokeHandler\<close>: settled, or waiting for the handler's own promise.\<close>

datatype 'u invocation = Fulfilled "'u jsval" | Rejected "'u jsval" | Unsettled

definition invokeHandler ::
  "'u env \<Rightarrow> 'u RPCProtocolImpl \<Rightarrow> string \<Rightarrow> string \<Rightarrow> 'u jsval list \<Rightarrow> 'u invocation" where
  "invokeHandler env s proxyId methodName args =
     (case doInvokeHandler env s proxyId methodName args of
        Returns v \<Rightarrow> Fulfilled v
      | Throws err \<Rightarrow> Rejected err
      | ReturnsPromise \<Rightarrow> Unsettled)"

definition receiveRequest ::
  "'u env \<Rightarrow> 'u RPCProtocolImpl \<Rightarrow> string \<Rightarrow> string \<Rightarrow> string \<Rightarrow> 'u jsval list
   \<Rightarrow> 'u RPCProtocolImpl \<times> 'u invocation" where
  "receiveRequest env s msg_id msg_proxyId msg_method msg_args =
     (let callId = msg_id;
          proxyId = msg_proxyId;
          args = map (\<lambda>arg. if arg = JNull then JUndefined else arg) msg_args;
          addToken = (args \<noteq> [] \<and> last args = JStr ''add.cancellation.token'');
          s1 = (if addToken
                then s\<lparr>cancellationTokenSources :=
                        Map_set callId (TokenSource False) (cancellationTokenSources s)\<rparr>
                else s);
          args1 = (if addToken then butlast args @ [JToken False] else args)
      in (s1, invokeHandler env s1 proxyId msg_method args1))"

text \<open>
  The two callbacks of \<^verbatim>\<open>invocation.then\<close> in \<^verbatim>\<open>receiveRequest\<close>, run when the invocation
  has settled; an exception of \<^verbatim>\<open>send\<close> stays in the promise chain.
\<close>

definition invocation_then ::
  "'u env \<Rightarrow> 'u RPCProtocolImpl \<Rightarrow> string \<Rightarrow> 'u invocation
   \<Rightarrow> 'u RPCProtocolImpl \<times> 'u effect list \<times> exn option" where
  "invocation_then env s callId invocation =
     (case invocation of
        Unsettled \<Rightarrow> (s, [], None)
      | Fulfilled result \<Rightarrow>
          (let s1 = s\<lparr>cancellationTokenSources :=
                       Map_delete callId (cancellationTokenSources s)\<rparr> in
           case send (multiplexor s1)
                  (MessageFactory_replyOK env callId result (messageToSendHostId s1)) of
             Inl e \<Rightarrow> (s1, [], Some e)
           | Inr (m, effs) \<Rightarrow> (s1\<lparr>multiplexor := m\<rparr>, effs, None))
      | Rejected error \<Rightarrow>
          (let s1 = s\<lparr>cancellationTokenSources :=
                       Map_delete callId (cancellationTokenSources s)\<rparr> in
           case send (multiplexor s1)
                  (MessageFactory_replyErr env callId error (messageToSendHostId s1)) of
             Inl e \<Rightarrow> (s1, [], Some e)
           | Inr (m, effs) \<Rightarrow> (s1\<lparr>multiplexor := m\<rparr>, effs, None)))"

definition receiveReply ::
  "'u RPCProtocolImpl \<Rightarrow> string \<Rightarrow> 'u jsval \<Rightarrow> 'u RPCProtocolImpl \<times> 'u effect list" where
  "receiveReply s msg_id msg_res =
     (let callId = msg_id in
      case Map_get (pendingRPCReplies s) callId of
        None \<Rightarrow> (s, [])
      | Some pendingReply \<Rightarrow>
          (s\<lparr>pendingRPCReplies := Map_delete callId (pendingRPCReplies s)\<rparr>,
           [Resolve pendingReply msg_res]))"

definition receiveReplyErr ::
  "'u RPCProtocolImpl \<Rightarrow> string \<Rightarrow> 'u jsval \<Rightarrow> 'u RPCProtocolImpl \<times> 'u effect list" where
  "receiveReplyErr s msg_id msg_err =
     (let callId = msg_id in
      case Map_get (pendingRPCReplies s) callId of
        None \<Rightarrow> (s, [])
      | Some pendingReply \<Rightarrow>
          (let err =
             (if truthy msg_err \<and> truthy (js_get msg_err ''$isError'') then
                JErr (js_get msg_err ''name'') (js_get msg_err ''message'')
                  (js_get msg_err ''stack'') JUndefined
              else JUndefined)
           in (s\<lparr>pendingRPCReplies := Map_delete callId (pendingRPCReplies s)\<rparr>,
               [Reject pendingReply err])))"

text \<open>
  \<^verbatim>\<open>receiveOneMessage\<close>. The message classes declare \<^verbatim>\<open>id\<close>, \<^verbatim>\<open>proxyId\<close> and \<^verbatim>\<open>method\<close> as
  strings and \<^verbatim>\<open>args\<close> as an array, and \<^verbatim>\<open>messageToSendHostId\<close> is a string: a message
  that is cast to a class whose declaration it does not meet is outside the declared
  types (\<open>IllTyped\<close>). What a request invokes is returned with its call id, for
  \<open>invocation_then\<close>.
\<close>

datatype 'u dispatched = Ignored | Handled | Invoked string "'u invocation"

definition as_string :: "'u jsval \<Rightarrow> string option" where
  "as_string v = (case v of JStr x \<Rightarrow> Some x | _ \<Rightarrow> None)"

definition as_array :: "'u jsval \<Rightarrow> 'u jsval list option" where
  "as_array v = (case v of JArr xs \<Rightarrow> Some xs | _ \<Rightarrow> None)"

definition dispatch ::
  "'u env \<Rightarrow> 'u RPCProtocolImpl \<Rightarrow> 'u jsval
   \<Rightarrow> 'u RPCProtocolImpl \<times> 'u effect list \<times> (exn + 'u dispatched)" where
  "dispatch env s msg =
     (if js_get msg ''type'' = JNum 1 then
        (case (as_string (js_get msg ''id''), as_string (js_get msg ''proxyId''),
               as_string (js_get msg ''method''), as_array (js_get msg ''args'')) of
           (Some i, Some p, Some m, Some a) \<Rightarrow>
             (case receiveRequest env s i p m a of
                (s1, invocation) \<Rightarrow> (s1, [], Inr (Invoked i invocation)))
         | _ \<Rightarrow> (s, [], Inl IllTyped))
      else if js_get msg ''type'' = JNum 2 then
        (case as_string (js_get msg ''id'') of
           Some i \<Rightarrow>
             (case receiveReply s i (js_get msg ''res'') of
                (s1, effs) \<Rightarrow> (s1, effs, Inr Handled))
         | None \<Rightarrow> (s, [], Inl IllTyped))
      else if js_get msg ''type'' = JNum 3 then
        (case as_string (js_get msg ''id'') of
           Some i \<Rightarrow>
             (case receiveReplyErr s i (js_get msg ''err'') of
                (s1, effs) \<Rightarrow> (s1, effs, Inr Handled))
         | None \<Rightarrow> (s, [], Inl IllTyped))
      else if js_get msg ''type'' = JNum 4 then
        (case as_string (js_get msg ''id'') of
           Some i \<Rightarrow>
             (case receiveCancel s i of (s1, effs) \<Rightarrow> (s1, effs, Inr Handled))
         | None \<Rightarrow> (s, [], Inl IllTyped))
      else (s, [], Inr Ignored))"

definition receiveOneMessage ::
  "'u env \<Rightarrow> 'u RPCProtocolImpl \<Rightarrow> string
   \<Rightarrow> 'u RPCProtocolImpl \<times> 'u effect list \<times> (exn + 'u dispatched)" where
  "receiveOneMessage env s rawmsg =
     (if isDisposed s then (s, [], Inr Ignored)
      else
        (case JSON_parse_reviver (reviver env) rawmsg of
           Inl e \<Rightarrow> (s, [], Inl e)
         | Inr msg \<Rightarrow>
             (case get_member msg ''setHostID'' of
                Inl e \<Rightarrow> (s, [], Inl e)
              | Inr h \<Rightarrow>
                  if truthy h then
                    (case as_string h of
                       Some hs \<Rightarrow> (s\<lparr>messageToSendHostId := Some hs\<rparr>, [], Inr Handled)
                     | None \<Rightarrow> (s, [], Inl IllTyped))
                  else if (case remoteHostID s of
                             None \<Rightarrow> False
                           | Some r \<Rightarrow> r \<noteq> [] \<and> truthy (js_get msg ''hostID'')
                                       \<and> JStr r \<noteq> js_get msg ''hostID'')
                  then (s, [], Inr Ignored)
                  else dispatch env s msg)))"

section \<open>Plain JSON values\<close>

text \<open>
  The values \<^verbatim>\<open>JSON.parse\<close> can return: no \<^verbatim>\<open>undefined\<close>, no instance of a class, and
  no key twice in an object. \<open>delimited\<close> is what may follow a value in a text.
\<close>

fun plain :: "'u jsval \<Rightarrow> bool"
and plain_elements :: "'u jsval list \<Rightarrow> bool"
and plain_members :: "(string \<times> 'u jsval) list \<Rightarrow> bool" where
  "plain JUndefined = False"
| "plain JNull = True"
| "plain (JBool b) = True"
| "plain (JNum n) = True"
| "plain (JStr s) = True"
| "plain (JArr xs) = plain_elements xs"
| "plain (JObj fs) = (distinct (map fst fs) \<and> plain_members fs)"
| "plain (JTheiaURI u) = False"
| "plain (JVSCodeURI u) = False"
| "plain (JErr n m st stt) = False"
| "plain (JToken c) = False"
| "plain (JNonFinite x) = False"
| "plain_elements [] = True"
| "plain_elements (x # xs) = (plain x \<and> plain_elements xs)"
| "plain_members [] = True"
| "plain_members ((k, x) # fs) = (plain x \<and> plain_members fs)"

definition starts_value :: "string \<Rightarrow> bool" where
  "starts_value t = (case t of [] \<Rightarrow> False | c # r \<Rightarrow> \<not> is_ws c \<and> c \<noteq> CHR '']'' \<and> c \<noteq> CHR ''}'')"


fun delimited :: "string \<Rightarrow> bool" where
  "delimited [] = True"
| "delimited (c # r) = (c = CHR '','' \<or> c = CHR '']'' \<or> c = CHR ''}'')"


section \<open>What the transferrer recognises\<close>

text \<open>
  \<open>tagged\<close>: the shape \<open>reviver\<close> rewrites, an object with a \<^verbatim>\<open>$type\<close> of 0, 1 or 2 and a
  \<^verbatim>\<open>data\<close>. \<open>range_of\<close>: the range of the four numbers of a range. \<open>integer_range\<close>: the
  four numbers are integers (\<^verbatim>\<open>Number.isInteger\<close>).
\<close>

definition tagged :: "'u jsval \<Rightarrow> bool" where
  "tagged v =
     (isSerializedObject v
      \<and> (js_get v ''$type'' = JNum THEIA_URI \<or> js_get v ''$type'' = JNum VSCODE_URI
         \<or> js_get v ''$type'' = JNum THEIA_RANGE))"

definition range_of :: "'u jsval \<Rightarrow> 'u jsval" where
  "range_of v =
     JObj [(''start'', JObj [(''line'', js_get (js_get v ''start'') ''line''),
                             (''character'', js_get (js_get v ''start'') ''character'')]),
           (''end'', JObj [(''line'', js_get (js_get v ''end'') ''line''),
                           (''character'', js_get (js_get v ''end'') ''character'')])]"

definition is_integer :: "'u jsval \<Rightarrow> bool" where
  "is_integer v = (case v of JNum n \<Rightarrow> True | _ \<Rightarrow> False)"

definition integer_range :: "'u jsval \<Rightarrow> bool" where
  "integer_range v =
     (is_integer (js_get (js_get v ''start'') ''line'')
      \<and> is_integer (js_get (js_get v ''start'') ''character'')
      \<and> is_integer (js_get (js_get v ''end'') ''line'')
      \<and> is_integer (js_get (js_get v ''end'') ''character''))"

definition is_TheiaURI :: "'u jsval \<Rightarrow> bool" where
  "is_TheiaURI v = (case v of JTheiaURI u \<Rightarrow> True | _ \<Rightarrow> False)"

text \<open>
  \<open>transferable\<close>: values that come back from a message as they went in. JSON values
  with no \<^verbatim>\<open>undefined\<close>, no number that is not finite, no key twice, no object shaped like
  a tagged record or marked \<^verbatim>\<open>$mid === 1\<close>, and no object that \<^verbatim>\<open>Range.is\<close> accepts but the
  plain range of four integers; and the instances of the two URI classes on which the
  library's parser inverts \<^verbatim>\<open>toString\<close>.
\<close>

fun transferable :: "'u env \<Rightarrow> 'u jsval \<Rightarrow> bool"
and transferable_elements :: "'u env \<Rightarrow> 'u jsval list \<Rightarrow> bool"
and transferable_members :: "'u env \<Rightarrow> (string \<times> 'u jsval) list \<Rightarrow> bool" where
  "transferable env JUndefined = False"
| "transferable env JNull = True"
| "transferable env (JBool b) = True"
| "transferable env (JNum n) = True"
| "transferable env (JStr s) = True"
| "transferable env (JArr xs) = transferable_elements env xs"
| "transferable env (JObj fs) =
     (distinct (map fst fs) \<and> \<not> tagged (JObj fs) \<and> js_get (JObj fs) ''$mid'' \<noteq> JNum 1
      \<and> (if Range_is (JObj fs) then integer_range (JObj fs) \<and> range_of (JObj fs) = JObj fs
         else transferable_members env fs))"
| "transferable env (JTheiaURI u) = (URI_new env (JStr (URI_toString env u)) = Some u)"
| "transferable env (JVSCodeURI w) =
     (VSCodeURI_parse env
        (JStr (VSCodeURI_toString env (VSCodeURI_revive env (toJSON env (JVSCodeURI w))))) = Some w)"
| "transferable env (JErr n m st stt) = False"
| "transferable env (JToken c) = False"
| "transferable env (JNonFinite x) = False"
| "transferable_elements env [] = True"
| "transferable_elements env (x # xs) = (transferable env x \<and> transferable_elements env xs)"
| "transferable_members env [] = True"
| "transferable_members env ((k, x) # fs) = (transferable env x \<and> transferable_members env fs)"

text \<open>
  \<open>proper\<close>: a list of properties stands for an object when it names no property twice.
  \<open>json_image\<close>: the JSON value whose text \<open>serialize\<close> writes for a value: \<^verbatim>\<open>undefined\<close> and
  a number that is not finite become \<^verbatim>\<open>null\<close> in an array, a property that is \<^verbatim>\<open>undefined\<close>
  is left out, an instance shows its enumerable properties. \<open>transferred\<close>: what the
  receiving side reads from the text the sending side writes for a payload, through
  \<^verbatim>\<open>JSON.stringify\<close> with \<open>replacer\<close> and \<^verbatim>\<open>JSON.parse\<close> with \<open>reviver\<close>.
\<close>

fun proper :: "'u jsval \<Rightarrow> bool"
and proper_elements :: "'u jsval list \<Rightarrow> bool"
and proper_members :: "(string \<times> 'u jsval) list \<Rightarrow> bool" where
  "proper (JArr xs) = proper_elements xs"
| "proper (JObj fs) = (distinct (map fst fs) \<and> proper_members fs)"
| "proper JUndefined = True"
| "proper JNull = True"
| "proper (JBool b) = True"
| "proper (JNum n) = True"
| "proper (JStr s) = True"
| "proper (JTheiaURI u) = True"
| "proper (JVSCodeURI u) = True"
| "proper (JErr n m st stt) = True"
| "proper (JToken c) = True"
| "proper (JNonFinite x) = True"
| "proper_elements [] = True"
| "proper_elements (x # xs) = (proper x \<and> proper_elements xs)"
| "proper_members [] = True"
| "proper_members ((k, x) # fs) = (proper x \<and> proper_members fs)"

fun json_image :: "'u jsval \<Rightarrow> 'u jsval"
and json_image_elements :: "'u jsval list \<Rightarrow> 'u jsval list"
and json_image_members :: "(string \<times> 'u jsval) list \<Rightarrow> (string \<times> 'u jsval) list" where
  "json_image (JArr xs) = JArr (json_image_elements xs)"
| "json_image (JObj fs) = JObj (json_image_members fs)"
| "json_image JUndefined = JNull"
| "json_image JNull = JNull"
| "json_image (JBool b) = JBool b"
| "json_image (JNum n) = JNum n"
| "json_image (JStr s) = JStr s"
| "json_image (JTheiaURI u) = JObj []"
| "json_image (JVSCodeURI u) = JObj []"
| "json_image (JErr n m st stt) = JObj []"
| "json_image (JToken c) = JObj [(''isCancellationRequested'', JBool c)]"
| "json_image (JNonFinite x) = JNull"
| "json_image_elements [] = []"
| "json_image_elements (x # xs) = json_image x # json_image_elements xs"
| "json_image_members [] = []"
| "json_image_members ((k, x) # fs) =
     (if x = JUndefined then json_image_members fs else (k, json_image x) # json_image_members fs)"


section \<open>Messages as records\<close>

text \<open>
  \<open>json_safe\<close>: the strings a template literal may put between quotes and still write the
  same JSON string, those with no double quote, no backslash and no control character.
  \<open>host_field\<close>: the \<^verbatim>\<open>hostID\<close> member of a message, present for a non-empty host id.
  \<open>accepts_host\<close>: the host filter of \<^verbatim>\<open>receiveOneMessage\<close> lets a message with that host id
  through. The four records are what the four messages decode to; \<open>error_record\<close> is the
  serialized error, with its \<^verbatim>\<open>stack\<close> left out when the stack is \<^verbatim>\<open>undefined\<close>.
\<close>

definition json_safe :: "string \<Rightarrow> bool" where
  "json_safe s = list_all (\<lambda>c. c \<noteq> dquote \<and> c \<noteq> backslash \<and> \<not> (of_char c :: nat) < 32) s"

definition host_safe :: "string option \<Rightarrow> bool" where
  "host_safe h = (case h of None \<Rightarrow> True | Some x \<Rightarrow> json_safe x)"

definition host_field :: "string option \<Rightarrow> (string \<times> 'u jsval) list" where
  "host_field h = (case h of None \<Rightarrow> [] | Some x \<Rightarrow> if x = [] then [] else [(''hostID'', JStr x)])"

definition accepts_host :: "'u RPCProtocolImpl \<Rightarrow> string option \<Rightarrow> bool" where
  "accepts_host s h =
     (case remoteHostID s of
        None \<Rightarrow> True
      | Some r \<Rightarrow> r = [] \<or> (case h of None \<Rightarrow> True | Some x \<Rightarrow> x = [] \<or> x = r))"

definition string_or_undefined :: "'u jsval \<Rightarrow> bool" where
  "string_or_undefined v = (case v of JStr x \<Rightarrow> True | JUndefined \<Rightarrow> True | _ \<Rightarrow> False)"

definition request_record ::
  "string option \<Rightarrow> string \<Rightarrow> string \<Rightarrow> string \<Rightarrow> 'u jsval list \<Rightarrow> 'u jsval" where
  "request_record h i p m args =
     JObj (host_field h @ [(''type'', JNum 1), (''id'', JStr i), (''proxyId'', JStr p),
                           (''method'', JStr m), (''args'', JArr args)])"

definition reply_record :: "string option \<Rightarrow> string \<Rightarrow> 'u jsval \<Rightarrow> 'u jsval" where
  "reply_record h i res =
     JObj (host_field h @ [(''type'', JNum 2), (''id'', JStr i)]
           @ (if res = JUndefined then [] else [(''res'', res)]))"

definition replyErr_record :: "string option \<Rightarrow> string \<Rightarrow> 'u jsval \<Rightarrow> 'u jsval" where
  "replyErr_record h i err =
     JObj (host_field h @ [(''type'', JNum 3), (''id'', JStr i), (''err'', err)])"


definition error_record :: "'u jsval \<Rightarrow> 'u jsval \<Rightarrow> 'u jsval \<Rightarrow> 'u jsval" where
  "error_record n m st =
     JObj ([(''$isError'', JBool True), (''name'', n), (''message'', m)]
           @ (if st = JUndefined then [] else [(''stack'', st)]))"

text \<open>
  \<open>callable\<close>: \<^verbatim>\<open>typeof method === 'function'\<close> on what \<^verbatim>\<open>actor[methodName]\<close> finds.
  \<open>unknown_target_message\<close>: the message of the error \<^verbatim>\<open>doInvokeHandler\<close> throws for a
  request it cannot serve.
\<close>

definition callable :: "'u member option \<Rightarrow> bool" where
  "callable x = (case x of Some (Method f) \<Rightarrow> True | _ \<Rightarrow> False)"

definition unknown_target_message :: "'u RPCProtocolImpl \<Rightarrow> string \<Rightarrow> string \<Rightarrow> string" where
  "unknown_target_message s p m =
     (if Map_get (locals s) p = None then ''Unknown actor '' @ p
      else ''Unknown method '' @ m @ '' on actor '' @ p)"

section \<open>An environment and an engine to evaluate on\<close>

text \<open>
  A small environment (a URI is its own text, and the libraries and the conversion to a
  string throw on what is not a string) and the engine the constructor returns
  without a remote host id; the examples below are evaluated on them: the engine after
  \<^verbatim>\<open>set\<close> has registered an instance under the id \<^verbatim>\<open>A\<close>, the same engine while a request
  with a cancellation marker waits for its handler's promise, the engine after
  \<^verbatim>\<open>dispose()\<close>, and the engine after two calls that wait for their replies. \<open>rejections\<close> reads from a list of effects which \<^verbatim>\<open>Deferred\<close> was rejected
  with what, in order.
\<close>

definition example_env :: "string env" where
  "example_env =
     \<lparr>URI_new = (\<lambda>x. case x of JStr d \<Rightarrow> Some d | _ \<Rightarrow> None), URI_toString = (\<lambda>u. u),
      VSCodeURI_toJSON = (\<lambda>u. [(''external'', u)]),
      VSCodeURI_revive = (\<lambda>v. case js_get v ''external'' of JStr x \<Rightarrow> x | _ \<Rightarrow> []),
      VSCodeURI_toString = (\<lambda>u. u),
      VSCodeURI_parse = (\<lambda>x. case x of JStr d \<Rightarrow> Some d | _ \<Rightarrow> None),
      Error_stack = (\<lambda>m. JStr (''Error: '' @ m)),
      ToString = (\<lambda>x. None)\<rparr>"

definition fresh_engine :: "string RPCProtocolImpl" where
  "fresh_engine =
     \<lparr>locals = [], proxies = [], lastMessageId = 0, cancellationTokenSources = [],
      pendingRPCReplies = [],
      multiplexor = \<lparr>messagesToSend = [], mux_toDispose = [ClearMessagesToSend, StopListening]\<rparr>,
      messageToSendHostId = None, remoteHostID = None,
      toDispose = [MarkAsNotDisposed, MultiplexorDisposable, ClearProxiesAndReplies]\<rparr>"

definition served_engine :: "string RPCProtocolImpl" where
  "served_engine =
     fresh_engine\<lparr>locals := [(''A'', [(''$wait'', Method (\<lambda>args. ReturnsPromise)),
                                      (''$greet'', Method (\<lambda>args. Returns (JStr ''hi''))),
                                      (''label'', Field (JStr ''a''))])],
                  toDispose := [MarkAsNotDisposed, MultiplexorDisposable, ClearProxiesAndReplies,
                                DeleteLocal ''A'']\<rparr>"


definition disposed_engine :: "string RPCProtocolImpl" where
  "disposed_engine = fst (dispose example_env fresh_engine)"

fun rejections :: "'u effect list \<Rightarrow> (deferred \<times> 'u jsval) list" where
  "rejections [] = []"
| "rejections (Reject d v # effs) = (d, v) # rejections effs"
| "rejections (e # effs) = rejections effs"

definition calling_engine :: "string RPCProtocolImpl" where
  "calling_engine =
     fst (remoteCall example_env
            (fst (remoteCall example_env served_engine ''B'' ''$run'' [JNum 1]))
            ''B'' ''$stop'' [])"

section \<open>The states an engine can reach\<close>

text \<open>
  An engine is built by its constructor and changed by the operations the source offers
  to its users and to the event loop: \<^verbatim>\<open>getProxy\<close>, \<^verbatim>\<open>set\<close>, a call through a proxy, the
  callback of a caller's cancellation token, the flush of the multiplexer's buffer, a
  message from the connection, the callbacks of an invocation that has settled, and
  \<^verbatim>\<open>dispose\<close>. \<open>consistent\<close> is what holds of all of these states: a disposed engine has no
  pending call and a disposed multiplexer, an engine that is not disposed holds the two
  disposables of its constructor and a multiplexer that is not disposed, and the pending
  calls hold each \<^verbatim>\<open>Deferred\<close> once, none newer than the counter.
\<close>

inductive reachable :: "'u env \<Rightarrow> 'u RPCProtocolImpl \<Rightarrow> bool" for env :: "'u env" where
  constructed: "RPCProtocolImpl_new h = Inr (s, effs) \<Longrightarrow> reachable env s"
| after_getProxy: "reachable env s \<Longrightarrow> getProxy s p = Inr s' \<Longrightarrow> reachable env s'"
| after_set: "reachable env s \<Longrightarrow> set_instance s p inst = Inr s' \<Longrightarrow> reachable env s'"
| after_call:
    "reachable env s \<Longrightarrow> proxy_call env s p m args = (s', args', effs, r) \<Longrightarrow> reachable env s'"
| after_token:
    "reachable env s \<Longrightarrow> onCancellationRequested s i = Inr (s', effs) \<Longrightarrow> reachable env s'"
| after_flush:
    "reachable env s \<Longrightarrow> sendAccumulated (multiplexor s) = (mx, effs :: 'u effect list)
     \<Longrightarrow> reachable env (s\<lparr>multiplexor := mx\<rparr>)"
| after_message:
    "reachable env s \<Longrightarrow> receiveOneMessage env s raw = (s', effs, r) \<Longrightarrow> reachable env s'"
| after_settled:
    "reachable env s \<Longrightarrow> invocation_then env s i outcome = (s', effs, x) \<Longrightarrow> reachable env s'"
| after_dispose: "reachable env s \<Longrightarrow> dispose env s = (s', effs) \<Longrightarrow> reachable env s'"

definition pending_ok :: "(string \<times> deferred) list \<Rightarrow> nat \<Rightarrow> bool" where
  "pending_ok m n = (distinct (map snd m) \<and> (\<forall>d \<in> set (map snd m). d \<le> n))"

definition consistent :: "'u RPCProtocolImpl \<Rightarrow> bool" where
  "consistent s =
     ((if isDisposed s then pendingRPCReplies s = [] \<and> mux_toDispose (multiplexor s) = []
       else ClearProxiesAndReplies \<in> set (toDispose s)
            \<and> MultiplexorDisposable \<in> set (toDispose s)
            \<and> mux_toDispose (multiplexor s) \<noteq> [])
      \<and> pending_ok (pendingRPCReplies s) (lastMessageId s))"

section \<open>JSON.parse inverts JSON.stringify on plain values\<close>

lemma of_char_digit_char: "d < 10 \<Longrightarrow> (of_char (digit_char d) :: nat) = 48 + d"
  by (simp add: digit_char_def)

lemma is_digit_digit_char: "d < 10 \<Longrightarrow> is_digit (digit_char d)"
  by (simp add: is_digit_def of_char_digit_char)

lemma digit_val_digit_char: "d < 10 \<Longrightarrow> digit_val (digit_char d) = d"
  by (simp add: digit_val_def of_char_digit_char)

lemma digits_of_all_digits: "\<forall>c \<in> set (digits_of n). is_digit c"
proof (induction n rule: digits_of.induct)
  case (1 n)
  show ?case
  proof (cases "n < 10")
    case True
    then show ?thesis by (subst digits_of.simps) (simp add: is_digit_digit_char)
  next
    case False
    with 1 show ?thesis by (subst digits_of.simps) (simp add: is_digit_digit_char)
  qed
qed

lemma digits_of_not_Nil: "digits_of n \<noteq> []"
  by (subst digits_of.simps) (simp del: digits_of.simps)

lemma digits_of_value: "foldl (\<lambda>a d. 10 * a + digit_val d) 0 (digits_of n) = n"
proof (induction n rule: digits_of.induct)
  case (1 n)
  show ?case
  proof (cases "n < 10")
    case True
    then show ?thesis by (subst digits_of.simps) (simp add: digit_val_digit_char)
  next
    case False
    with 1 show ?thesis by (subst digits_of.simps) (simp add: digit_val_digit_char)
  qed
qed

lemma hd_digits_of: "0 < n \<Longrightarrow> hd (digits_of n) \<noteq> CHR ''0''"
proof (induction n rule: digits_of.induct)
  case (1 n)
  show ?case
  proof (cases "n < 10")
    case True
    have "digit_char n \<noteq> CHR ''0''"
    proof
      assume "digit_char n = CHR ''0''"
      then have "(of_char (digit_char n) :: nat) = of_char (CHR ''0'')" by simp
      with True 1(2) show False by (simp add: of_char_digit_char)
    qed
    with True show ?thesis by (subst digits_of.simps) simp
  next
    case False
    then have "0 < n div 10" by simp
    with 1(1) False have "hd (digits_of (n div 10)) \<noteq> CHR ''0''" by simp
    with False show ?thesis by (subst digits_of.simps) (simp add: digits_of_not_Nil)
  qed
qed


lemma delimited_not_digit: "delimited (c # r) \<Longrightarrow> \<not> is_digit c"
  by (auto simp: is_digit_def)

lemma takeWhile_digits: "(\<forall>c \<in> set ds. is_digit c) \<Longrightarrow> delimited rest \<Longrightarrow> takeWhile is_digit (ds @ rest) = ds"
  by (cases rest) (auto simp: takeWhile_append2 is_digit_def)

lemma dropWhile_digits: "(\<forall>c \<in> set ds. is_digit c) \<Longrightarrow> delimited rest \<Longrightarrow> dropWhile is_digit (ds @ rest) = rest"
  by (cases rest) (auto simp: dropWhile_append2 is_digit_def)

lemma char_of_eqI: "(of_char c :: nat) = n mod 256 \<Longrightarrow> char_of n = c"
  by (metis char_of_char of_char_of char_of_mod_256)

lemma digits_of_0: "digits_of 0 = ''0''"
  by (subst digits_of.simps) (simp add: digit_char_def char_of_eqI)

lemma parse_nat_digits:
  assumes "delimited rest"
  shows "parse_nat (digits_of n @ rest) = Some (n, rest)"
proof (cases "n = 0")
  case True
  then show ?thesis by (simp add: digits_of_0 parse_nat_def)
next
  case False
  obtain c cs where cs: "digits_of n = c # cs"
    using digits_of_not_Nil [of n] by (cases "digits_of n") auto
  from False have "hd (digits_of n) \<noteq> CHR ''0''" by (simp add: hd_digits_of)
  with cs have c0: "c \<noteq> CHR ''0''" by simp
  have dig: "\<forall>c \<in> set (digits_of n). is_digit c" by (rule digits_of_all_digits)
  with cs have cd: "is_digit c" by simp
  have "parse_nat ((c # cs) @ rest) =
      Some (foldl (\<lambda>a d. 10 * a + digit_val d) 0 (takeWhile is_digit ((c # cs) @ rest)),
            dropWhile is_digit ((c # cs) @ rest))"
    using c0 cd by (simp add: parse_nat_def)
  also have "\<dots> = Some (n, rest)"
    using takeWhile_digits [OF dig assms] dropWhile_digits [OF dig assms] digits_of_value [of n]
    by (simp only: cs [symmetric])
  finally show ?thesis by (simp only: cs)
qed

lemma digits_of_hd_digit: "\<exists>c cs. digits_of n = c # cs \<and> is_digit c"
  using digits_of_not_Nil [of n] digits_of_all_digits [of n] by (cases "digits_of n") auto

lemma is_digit_not_minus: "is_digit c \<Longrightarrow> c \<noteq> CHR ''-''"
  by (auto simp: is_digit_def)

lemma parse_int_show_int:
  assumes "delimited rest"
  shows "parse_int (show_int i @ rest) = Some (i, rest)"
proof (cases "i < 0")
  case True
  then show ?thesis
    by (simp add: show_int_def parse_int_def parse_nat_digits [OF assms])
next
  case False
  obtain c cs where cs: "digits_of (nat i) = c # cs" and cd: "is_digit c"
    using digits_of_hd_digit by blast
  have "parse_int ((c # cs) @ rest) = map_option (\<lambda>(n, r'). (int n, r')) (parse_nat ((c # cs) @ rest))"
    using is_digit_not_minus [OF cd] by (simp add: parse_int_def)
  then show ?thesis
    using False parse_nat_digits [OF assms, of "nat i"] by (simp add: show_int_def cs)
qed

lemma parse_number_show_int:
  assumes "delimited rest"
  shows "parse_number (show_int i @ rest) = Some (JNum i, rest)"
  using assms parse_int_show_int [of "[]" i]
  by (cases rest) (auto simp: parse_number_def parse_int_show_int)

lemma show_int_hd: "\<exists>c cs. show_int i = c # cs \<and> (c = CHR ''-'' \<or> is_digit c)"
  using digits_of_hd_digit [of "nat i"] by (auto simp: show_int_def)


lemma of_char_hexdigit: "d < 16 \<Longrightarrow> (of_char (hexdigit d) :: nat) = (if d < 10 then 48 + d else 87 + d)"
  by (simp add: hexdigit_def)

lemma hex_val_hexdigit: "d < 16 \<Longrightarrow> hex_val (hexdigit d) = Some d"
  by (simp add: hex_val_def of_char_hexdigit Let_def)

lemma hex_val_0: "hex_val (CHR ''0'') = Some 0"
  by (simp add: hex_val_def)

lemma hex4_control:
  assumes "(of_char c :: nat) < 32"
  shows "hex4 (CHR ''0'') (CHR ''0'') (hexdigit ((of_char c :: nat) div 16)) (hexdigit ((of_char c :: nat) mod 16)) = Some c"
proof -
  have a: "(of_char c :: nat) div 16 < 16" using assms by simp
  have b: "(of_char c :: nat) mod 16 < 16" by simp
  have "char_of (16 * ((of_char c :: nat) div 16) + (of_char c :: nat) mod 16) = c"
    by simp
  then show ?thesis
    by (simp add: hex4_def hex_val_0 hex_val_hexdigit [OF a] hex_val_hexdigit [OF b])
qed

lemma parse_chars_escape_char:
  "parse_chars (escape_char c @ r) = map_option (\<lambda>(t, r3). (c # t, r3)) (parse_chars r)"
proof -
  consider (q) "c = dquote" | (b) "c = backslash"
    | (sp) "c \<in> {CHR 0x08, CHR 0x0C, CHR 0x0A, CHR 0x0D, CHR 0x09}"
    | (ctl) "c \<noteq> dquote" "c \<noteq> backslash" "c \<notin> {CHR 0x08, CHR 0x0C, CHR 0x0A, CHR 0x0D, CHR 0x09}" "(of_char c :: nat) < 32"
    | (ord) "c \<noteq> dquote" "c \<noteq> backslash" "\<not> (of_char c :: nat) < 32"
    by fastforce
  then show ?thesis
  proof cases
    case q
    then show ?thesis by (simp add: escape_char_def unescape_def dquote_def backslash_def)
  next
    case b
    then show ?thesis by (simp add: escape_char_def unescape_def dquote_def backslash_def)
  next
    case sp
    then show ?thesis by (auto simp: escape_char_def unescape_def dquote_def backslash_def)
  next
    case ctl
    then show ?thesis
      by (simp add: escape_char_def hex4_control dquote_def backslash_def)
  next
    case ord
    then have "escape_char c = [c]" by (auto simp: escape_char_def)
    with ord show ?thesis by simp
  qed
qed

lemma parse_chars_escaped:
  "parse_chars (concat (map escape_char s) @ dquote # rest) = Some (s, rest)"
  by (induction s) (simp_all add: parse_chars_escape_char)

lemma strip_prefix_append: "strip_prefix p (p @ r) = Some r"
  by (induction p) simp_all


lemma skip_ws_starts_value: "starts_value t \<Longrightarrow> skip_ws (t @ r) = t @ r"
  by (cases t) (auto simp: starts_value_def skip_ws_def)

lemma skip_ws_delims [simp]:
  "skip_ws (CHR '','' # r) = CHR '','' # r"
  "skip_ws (CHR '']'' # r) = CHR '']'' # r"
  "skip_ws (CHR ''}'' # r) = CHR ''}'' # r"
  "skip_ws (CHR '':'' # r) = CHR '':'' # r"
  "skip_ws [] = []"
  by (simp_all add: skip_ws_def is_ws_def)

lemma skip_ws_dquote [simp]: "skip_ws (dquote # r) = dquote # r"
  by (simp add: skip_ws_def is_ws_def dquote_def)

lemma is_digit_starts: "is_digit c \<Longrightarrow> \<not> is_ws c \<and> c \<noteq> CHR '']'' \<and> c \<noteq> CHR ''}'' \<and> c \<noteq> CHR ''['' \<and> c \<noteq> CHR ''{'' \<and> c \<noteq> dquote"
  by (auto simp: is_digit_def is_ws_def dquote_def)

lemma serialize_plain_starts:
  "plain v \<Longrightarrow> \<exists>t. serialize v = Some t \<and> starts_value t"
proof (cases v)
  case (JNum i)
  obtain c cs where "show_int i = c # cs" "c = CHR ''-'' \<or> is_digit c"
    using show_int_hd by blast
  then show ?thesis using JNum is_digit_starts [of c]
    by (auto simp: starts_value_def is_ws_def)
qed (auto simp: starts_value_def is_ws_def QuoteJSONString_def dquote_def)

lemma parse_value_dispatch_number:
  "c = CHR ''-'' \<or> is_digit c \<Longrightarrow> parse_value (Suc n) (c # r) = parse_number (c # r)"
  using is_digit_starts [of c] by (auto simp: dquote_def)

lemma parse_value_number:
  assumes "delimited rest"
  shows "parse_value (Suc n) (show_int i @ rest) = Some (JNum i, rest)"
proof -
  obtain c cs where c: "show_int i = c # cs" "c = CHR ''-'' \<or> is_digit c"
    using show_int_hd by blast
  show ?thesis
    using parse_number_show_int [OF assms, of i]
    by (simp only: c(1) append_Cons parse_value_dispatch_number [OF c(2)])
qed

lemma parse_value_dquote:
  "parse_value (Suc n) (dquote # r) = map_option (\<lambda>(t, r'). (JStr t, r')) (parse_chars r)"
  by (simp add: dquote_def)

lemma parse_value_string:
  "parse_value (Suc n) (QuoteJSONString s @ rest) = Some (JStr s, rest)"
  by (simp only: QuoteJSONString_def append_Cons append_assoc parse_value_dquote append_Nil parse_chars_escaped)
     simp

lemma parse_value_literals:
  "parse_value (Suc n) (''null'' @ rest) = Some (JNull, rest)"
  "parse_value (Suc n) (''true'' @ rest) = Some (JBool True, rest)"
  "parse_value (Suc n) (''false'' @ rest) = Some (JBool False, rest)"
  by (simp_all add: parse_literal_def dquote_def is_digit_def)

lemma parse_value_array:
  "parse_value (Suc n) (CHR ''['' # r) =
     (case skip_ws r of
        [] \<Rightarrow> None
      | c' # r' \<Rightarrow>
          if c' = CHR '']'' then Some (JArr [], r')
          else map_option (\<lambda>(xs, r''). (JArr xs, r'')) (parse_elements n (c' # r')))"
  by simp

lemma parse_value_object:
  "parse_value (Suc n) (CHR ''{'' # r) =
     (case skip_ws r of
        [] \<Rightarrow> None
      | c' # r' \<Rightarrow>
          if c' = CHR ''}'' then Some (JObj [], r')
          else map_option (\<lambda>(ms, r''). (members_to_object ms, r'')) (parse_members n (c' # r')))"
  by simp

lemma parse_members_dquote:
  "parse_members (Suc n) (dquote # r) =
     (case parse_chars r of
        None \<Rightarrow> None
      | Some (k, r1) \<Rightarrow>
          (case skip_ws r1 of
             [] \<Rightarrow> None
           | c1 # r2 \<Rightarrow>
               if c1 \<noteq> CHR '':'' then None
               else
                 (case parse_value n (skip_ws r2) of
                    None \<Rightarrow> None
                  | Some (x, r3) \<Rightarrow>
                      (case skip_ws r3 of
                         [] \<Rightarrow> None
                       | c3 # r4 \<Rightarrow>
                           if c3 = CHR '','' then
                             map_option (\<lambda>(ms, r5). ((k, x) # ms, r5))
                               (parse_members n (skip_ws r4))
                           else if c3 = CHR ''}'' then Some ([(k, x)], r4)
                           else None))))"
  by simp

declare parse_value.simps(2) [simp del] parse_elements.simps(2) [simp del]
  parse_members.simps(2) [simp del]

lemma Map_set_fresh: "k \<notin> fst ` set m \<Longrightarrow> Map_set k v m = m @ [(k, v)]"
  by (induction m) auto

lemma foldl_Map_set_distinct:
  "distinct (map fst (acc @ ms)) \<Longrightarrow> foldl (\<lambda>fs (k, x). Map_set k x fs) acc ms = acc @ ms"
proof (induction ms arbitrary: acc)
  case Nil
  then show ?case by simp
next
  case (Cons p ms)
  obtain k x where p: "p = (k, x)" by (cases p)
  from Cons.prems have "k \<notin> fst ` set acc" by (auto simp: p)
  then have "Map_set k x acc = acc @ [(k, x)]" by (rule Map_set_fresh)
  moreover from Cons.prems have "distinct (map fst ((acc @ [(k, x)]) @ ms))" by (simp add: p)
  ultimately show ?case using Cons.IH [of "acc @ [(k, x)]"] by (simp add: p)
qed

lemma members_to_object_distinct: "distinct (map fst ms) \<Longrightarrow> members_to_object ms = JObj ms"
  using foldl_Map_set_distinct [of "[]" ms] by (simp add: members_to_object_def)


lemma starts_value_append: "starts_value t \<Longrightarrow> starts_value (t @ r)"
  by (cases t) (auto simp: starts_value_def)

lemma serialize_elements_starts:
  "plain_elements xs \<Longrightarrow> xs \<noteq> [] \<Longrightarrow> starts_value (serialize_elements xs)"
proof (cases xs)
  case Nil
  assume "xs \<noteq> []" with Nil show ?thesis by simp
next
  case (Cons x ys)
  assume "plain_elements xs"
  with Cons have "plain x" by simp
  then obtain t where t: "serialize x = Some t" "starts_value t"
    using serialize_plain_starts by blast
  then show ?thesis using Cons by (cases ys) (simp_all add: starts_value_append)
qed

lemma starts_value_dquote: "starts_value (dquote # r)"
  by (simp add: starts_value_def is_ws_def dquote_def)

lemma serialize_members_dquote:
  "plain_members fs \<Longrightarrow> fs \<noteq> [] \<Longrightarrow> \<exists>r. serialize_members fs = dquote # r"
proof (cases fs)
  case Nil
  assume "fs \<noteq> []" with Nil show ?thesis by simp
next
  case (Cons p gs)
  obtain k x where p: "p = (k, x)" by (cases p)
  assume "plain_members fs"
  with Cons p have "plain x" by simp
  then obtain t where t: "serialize x = Some t"
    using serialize_plain_starts by blast
  then show ?thesis using Cons p by (simp add: QuoteJSONString_def)
qed

lemma serialize_members_Nil_iff:
  "plain_members fs \<Longrightarrow> (serialize_members fs = []) = (fs = [])"
  using serialize_members_dquote [of fs] by (cases fs) auto

lemma parse_elements_last:
  "parse_value n (tx @ CHR '']'' # rest) = Some (x, CHR '']'' # rest)
   \<Longrightarrow> parse_elements (Suc n) (tx @ CHR '']'' # rest) = Some ([x], rest)"
  by (simp add: parse_elements.simps(2))

lemma parse_elements_more:
  "parse_value n (tx @ CHR '','' # mr) = Some (x, CHR '','' # mr)
   \<Longrightarrow> skip_ws mr = mr
   \<Longrightarrow> parse_elements n mr = Some (xs, rest)
   \<Longrightarrow> parse_elements (Suc n) (tx @ CHR '','' # mr) = Some (x # xs, rest)"
  by (simp add: parse_elements.simps(2))

lemma parse_members_last:
  "parse_value n (tx @ CHR ''}'' # rest) = Some (x, CHR ''}'' # rest)
   \<Longrightarrow> starts_value tx
   \<Longrightarrow> parse_members (Suc n) (QuoteJSONString k @ CHR '':'' # tx @ CHR ''}'' # rest) = Some ([(k, x)], rest)"
  using skip_ws_starts_value [of tx "CHR ''}'' # rest"]
  by (simp add: QuoteJSONString_def parse_members_dquote parse_chars_escaped)

lemma parse_members_more:
  "parse_value n (tx @ CHR '','' # mr) = Some (x, CHR '','' # mr)
   \<Longrightarrow> starts_value tx
   \<Longrightarrow> skip_ws mr = mr
   \<Longrightarrow> parse_members n mr = Some (ms, rest)
   \<Longrightarrow> parse_members (Suc n) (QuoteJSONString k @ CHR '':'' # tx @ CHR '','' # mr) = Some ((k, x) # ms, rest)"
  using skip_ws_starts_value [of tx "CHR '','' # mr"]
  by (simp add: QuoteJSONString_def parse_members_dquote parse_chars_escaped)

lemma parse_value_empty_array: "parse_value (Suc n) (''[]'' @ rest) = Some (JArr [], rest)"
  by (simp add: parse_value_array)

lemma parse_value_empty_object: "parse_value (Suc n) (''{}'' @ rest) = Some (JObj [], rest)"
  by (simp add: parse_value_object)

lemma parse_value_nonempty_array:
  "starts_value es \<Longrightarrow> parse_elements n (es @ r) = Some (xs, rest)
   \<Longrightarrow> parse_value (Suc n) (CHR ''['' # es @ r) = Some (JArr xs, rest)"
  using skip_ws_starts_value [of es r]
  by (cases es) (auto simp: parse_value_array starts_value_def)

lemma parse_value_nonempty_object:
  "starts_value es \<Longrightarrow> parse_members n (es @ r) = Some (ms, rest) \<Longrightarrow> distinct (map fst ms)
   \<Longrightarrow> parse_value (Suc n) (CHR ''{'' # es @ r) = Some (JObj ms, rest)"
  using skip_ws_starts_value [of es r]
  by (cases es) (auto simp: parse_value_object starts_value_def members_to_object_distinct)


lemma parse_serialize_aux:
  fixes v :: "'u jsval" and xs :: "'u jsval list" and fs :: "(string \<times> 'u jsval) list"
  shows "plain v \<longrightarrow> (\<forall>n rest t. serialize v = Some t \<longrightarrow> delimited rest \<longrightarrow> length t \<le> n
      \<longrightarrow> parse_value n (t @ rest) = Some (v, rest))"
  and "plain_elements xs \<longrightarrow> xs \<noteq> [] \<longrightarrow> (\<forall>n rest. length (serialize_elements xs) < n
      \<longrightarrow> parse_elements n (serialize_elements xs @ CHR '']'' # rest) = Some (xs, rest))"
  and "plain_members fs \<longrightarrow> fs \<noteq> [] \<longrightarrow> (\<forall>n rest. length (serialize_members fs) < n
      \<longrightarrow> parse_members n (serialize_members fs @ CHR ''}'' # rest) = Some (fs, rest))"
proof (induction v and xs and fs rule: plain_plain_elements_plain_members.induct)
  case 2
  show ?case
  proof (intro impI allI)
    fix n :: nat and rest t :: string
    assume "serialize (JNull :: 'u jsval) = Some t" "length t \<le> n"
    then obtain n' where "n = Suc n'" "t = ''null''" by (cases n) auto
    then show "parse_value n (t @ rest) = Some (JNull :: 'u jsval, rest)"
      using parse_value_literals(1) [of n' rest] by simp
  qed
next
  case (3 b)
  show ?case
  proof (intro impI allI)
    fix n :: nat and rest t :: string
    assume "serialize (JBool b :: 'u jsval) = Some t" "length t \<le> n"
    then obtain n' where "n = Suc n'" "t = (if b then ''true'' else ''false'')"
      by (cases n; cases b) auto
    then show "parse_value n (t @ rest) = Some (JBool b :: 'u jsval, rest)"
      using parse_value_literals(2,3) [of n' rest] by (cases b) simp_all
  qed
next
  case (4 i)
  show ?case
  proof (intro impI allI)
    fix n :: nat and rest t :: string
    assume a: "serialize (JNum i :: 'u jsval) = Some t" "length t \<le> n" "delimited rest"
    obtain c cs where "show_int i = c # cs" using show_int_hd by blast
    with a obtain n' where "n = Suc n'" "t = show_int i" by (cases n) auto
    then show "parse_value n (t @ rest) = Some (JNum i :: 'u jsval, rest)"
      using parse_value_number [OF a(3), of n' i] by simp
  qed
next
  case (5 s)
  show ?case
  proof (intro impI allI)
    fix n :: nat and rest t :: string
    assume a: "serialize (JStr s :: 'u jsval) = Some t" "length t \<le> n"
    then obtain n' where "n = Suc n'" "t = QuoteJSONString s"
      by (cases n) (auto simp: QuoteJSONString_def)
    then show "parse_value n (t @ rest) = Some (JStr s :: 'u jsval, rest)"
      using parse_value_string [of n' s rest] by simp
  qed
next
  case (6 xs)
  show ?case
  proof (intro impI allI)
    fix n :: nat and rest t :: string
    assume a: "plain (JArr xs)" "serialize (JArr xs) = Some t" "length t \<le> n"
    then obtain n' where n: "n = Suc n'" and t: "t = CHR ''['' # serialize_elements xs @ '']''"
      by (cases n) auto
    show "parse_value n (t @ rest) = Some (JArr xs, rest)"
    proof (cases "xs = []")
      case True
      then show ?thesis using parse_value_empty_array [of n' rest] by (simp add: n t)
    next
      case False
      from a(1) have pe: "plain_elements xs" by simp
      from a(3) have "length (serialize_elements xs) < n'" by (simp add: n t)
      with 6 pe False
      have "parse_elements n' (serialize_elements xs @ CHR '']'' # rest) = Some (xs, rest)"
        by simp
      then show ?thesis
        using parse_value_nonempty_array [OF serialize_elements_starts [OF pe False]]
        by (simp add: n t)
    qed
  qed
next
  case (7 fs)
  show ?case
  proof (intro impI allI)
    fix n :: nat and rest t :: string
    assume a: "plain (JObj fs)" "serialize (JObj fs) = Some t" "length t \<le> n"
    then obtain n' where n: "n = Suc n'" and t: "t = CHR ''{'' # serialize_members fs @ ''}''"
      by (cases n) auto
    from a(1) have pm: "plain_members fs" and d: "distinct (map fst fs)" by simp_all
    show "parse_value n (t @ rest) = Some (JObj fs, rest)"
    proof (cases "fs = []")
      case True
      then show ?thesis using parse_value_empty_object [of n' rest] by (simp add: n t)
    next
      case False
      from a(3) have "length (serialize_members fs) < n'" by (simp add: n t)
      with 7 pm d False
      have pr: "parse_members n' (serialize_members fs @ CHR ''}'' # rest) = Some (fs, rest)"
        by simp
      obtain r where "serialize_members fs = dquote # r"
        using serialize_members_dquote [OF pm False] by blast
      then have "starts_value (serialize_members fs)" by (simp add: starts_value_dquote)
      then show ?thesis
        using parse_value_nonempty_object [OF _ pr d] by (simp add: n t)
    qed
  qed
next
  case (14 x xs)
  show ?case
  proof (intro impI allI)
    fix n :: nat and rest :: string
    assume a: "plain_elements (x # xs)" "length (serialize_elements (x # xs)) < n"
    then have px: "plain x" and pxs: "plain_elements xs" by simp_all
    obtain tx where tx: "serialize x = Some tx" "starts_value tx"
      using serialize_plain_starts [OF px] by blast
    from a(2) obtain n' where n: "n = Suc n'" by (cases n) auto
    show "parse_elements n (serialize_elements (x # xs) @ CHR '']'' # rest) = Some (x # xs, rest)"
    proof (cases xs)
      case Nil
      from a(2) have "length tx \<le> n'" by (simp add: Nil tx n)
      with 14(1) px tx
      have "parse_value n' (tx @ CHR '']'' # rest) = Some (x, CHR '']'' # rest)" by simp
      then show ?thesis using parse_elements_last by (simp add: Nil tx n)
    next
      case (Cons y ys)
      let ?mr = "serialize_elements (y # ys) @ CHR '']'' # rest"
      from a(2) have l1: "length tx \<le> n'" and l2: "length (serialize_elements (y # ys)) < n'"
        by (simp_all add: Cons tx n)
      from 14(1) px tx l1
      have p1: "parse_value n' (tx @ CHR '','' # ?mr) = Some (x, CHR '','' # ?mr)" by simp
      from 14(2) px pxs l2
      have p2: "parse_elements n' ?mr = Some (xs, rest)" by (simp add: Cons)
      have sk: "skip_ws ?mr = ?mr"
        using serialize_elements_starts [of "y # ys"] pxs Cons skip_ws_starts_value by auto
      show ?thesis using parse_elements_more [OF p1 sk p2] by (simp add: Cons tx n)
    qed
  qed
next
  case (16 k x fs)
  show ?case
  proof (intro impI allI)
    fix n :: nat and rest :: string
    assume a: "plain_members ((k, x) # fs)" "length (serialize_members ((k, x) # fs)) < n"
    then have px: "plain x" and pfs: "plain_members fs" by simp_all
    obtain tx where tx: "serialize x = Some tx" "starts_value tx"
      using serialize_plain_starts [OF px] by blast
    from a(2) obtain n' where n: "n = Suc n'" by (cases n) auto
    show "parse_members n (serialize_members ((k, x) # fs) @ CHR ''}'' # rest) = Some ((k, x) # fs, rest)"
    proof (cases "fs = []")
      case True
      from a(2) have "length tx \<le> n'" by (simp add: True tx n)
      with 16(1) px tx
      have "parse_value n' (tx @ CHR ''}'' # rest) = Some (x, CHR ''}'' # rest)" by simp
      then show ?thesis using parse_members_last [OF _ tx(2)] by (simp add: True tx n)
    next
      case False
      let ?mr = "serialize_members fs @ CHR ''}'' # rest"
      have ne: "serialize_members fs \<noteq> []" using serialize_members_Nil_iff [OF pfs] False by simp
      from a(2) have l1: "length tx \<le> n'" and l2: "length (serialize_members fs) < n'"
        by (simp_all add: tx n ne)
      from 16(1) px tx l1
      have p1: "parse_value n' (tx @ CHR '','' # ?mr) = Some (x, CHR '','' # ?mr)" by simp
      from 16(2) px pfs l2 False
      have p2: "parse_members n' ?mr = Some (fs, rest)" by simp
      obtain r where "serialize_members fs = dquote # r"
        using serialize_members_dquote [OF pfs False] by blast
      then have sk: "skip_ws ?mr = ?mr" by simp
      show ?thesis using parse_members_more [OF p1 tx(2) sk p2] by (simp add: tx n ne)
    qed
  qed
qed simp_all

section \<open>The transferrer\<close>

lemma parse_value_serialize:
  "plain v \<Longrightarrow> serialize v = Some t \<Longrightarrow> delimited rest \<Longrightarrow> length t \<le> n
   \<Longrightarrow> parse_value n (t @ rest) = Some (v, rest)"
  using parse_serialize_aux(1) [of v] by blast

lemma JSON_parse_serialize:
  assumes "plain v" and "serialize v = Some t"
  shows "JSON_parse t = Some v"
proof -
  obtain t' where t': "serialize v = Some t'" "starts_value t'"
    using serialize_plain_starts [OF assms(1)] by blast
  with assms(2) have st: "starts_value t" by simp
  have "parse_value (Suc (length t)) (t @ []) = Some (v, [])"
    by (rule parse_value_serialize [OF assms]) simp_all
  then show ?thesis
    using skip_ws_starts_value [OF st, of "[]"] by (simp add: JSON_parse_def)
qed

lemma is_integer_cases: "is_integer v \<Longrightarrow> \<exists>a. v = JNum a"
  by (cases v) (simp_all add: is_integer_def)

lemma integer_range_cases:
  assumes "integer_range v"
  obtains a b c d where "js_get (js_get v ''start'') ''line'' = JNum a"
    "js_get (js_get v ''start'') ''character'' = JNum b"
    "js_get (js_get v ''end'') ''line'' = JNum c"
    "js_get (js_get v ''end'') ''character'' = JNum d"
  using assms is_integer_cases unfolding integer_range_def by metis

lemma Position_is_integers:
  "Position_is (JObj [(''line'', JNum a), (''character'', JNum b)])"
  by (simp add: Position_is_def is_number_def)

lemma show_int_not_Nil: "show_int i \<noteq> []"
  using show_int_hd [of i] by auto

lemma prepare_id_plain:
  fixes v :: "'u jsval" and xs :: "'u jsval list" and fs :: "(string \<times> 'u jsval) list"
  shows "plain v \<longrightarrow> prepare env (\<lambda>x. x) v = v"
    and "plain_elements xs \<longrightarrow> prepare_elements env (\<lambda>x. x) xs = xs"
    and "plain_members fs \<longrightarrow> prepare_members env (\<lambda>x. x) fs = fs"
  by (induction v and xs and fs rule: plain_plain_elements_plain_members.induct) simp_all

lemma plain_range_text:
  fixes a b c d :: int
  defines "sv \<equiv> JObj [(''start'', JObj [(''line'', JNum a), (''character'', JNum b)]),
                       (''end'', JObj [(''line'', JNum c), (''character'', JNum d)])]"
  shows "\<exists>t. JSON_stringify env (\<lambda>x. x) (sv :: 'u jsval) = Some t \<and> JSON_parse t = Some sv"
proof -
  have p: "plain sv" by (simp add: sv_def)
  then have "prepare env (\<lambda>x. x) sv = sv" using prepare_id_plain(1) by blast
  moreover obtain t where t: "serialize sv = Some t" using serialize_plain_starts [OF p] by blast
  ultimately show ?thesis using JSON_parse_serialize [OF p t] by (simp add: JSON_stringify_def)
qed

lemma revive_range_plain:
  "revive_range (JObj [(''start'', JObj [(''line'', JNum a), (''character'', JNum b)]),
                       (''end'', JObj [(''line'', JNum c), (''character'', JNum d)])])
   = Inr (JObj [(''start'', JObj [(''line'', JNum a), (''character'', JNum b)]),
                (''end'', JObj [(''line'', JNum c), (''character'', JNum d)])])"
  by (simp add: revive_range_def get_member_def Range_create_def Position_create_def
      Position_is_integers)

lemma reviver_replacer_TheiaURI:
  "reviver env (replacer env (JTheiaURI u))
     = (case URI_new env (JStr (URI_toString env u)) of
          None \<Rightarrow> Inl UriError | Some u' \<Rightarrow> Inr (JTheiaURI u'))"
  by (simp add: replacer_def reviver_def SerializedObject_def isSerializedObject_def THEIA_URI_def)

lemma Range_is_not_TheiaURI: "Range_is v \<Longrightarrow> \<exists>fs. v = JObj fs"
  by (cases v) (simp_all add: Range_is_def)

lemma reviver_replacer_Range:
  assumes "Range_is v" and "integer_range v"
  shows "reviver env (replacer env v) = Inr (range_of v)"
proof -
  obtain fs where v: "v = JObj fs" using Range_is_not_TheiaURI [OF assms(1)] by blast
  from assms(2) obtain a b c d where ab: "js_get (js_get v ''start'') ''line'' = JNum a"
      "js_get (js_get v ''start'') ''character'' = JNum b"
    and cd: "js_get (js_get v ''end'') ''line'' = JNum c"
      "js_get (js_get v ''end'') ''character'' = JNum d"
    by (rule integer_range_cases)
  let ?sv = "JObj [(''start'', JObj [(''line'', JNum a), (''character'', JNum b)]),
                   (''end'', JObj [(''line'', JNum c), (''character'', JNum d)])] :: 'a jsval"
  obtain t where t: "JSON_stringify env (\<lambda>x. x) ?sv = Some t" "JSON_parse t = Some ?sv"
    using plain_range_text [of env a b c d] by blast
  have r: "replacer env v = SerializedObject THEIA_RANGE (JStr t)"
    using assms(1) ab cd t(1) by (simp add: replacer_def v Let_def text_value_def)
  show ?thesis
    using t(2) ab cd
    by (simp add: r reviver_def SerializedObject_def isSerializedObject_def THEIA_RANGE_def
        THEIA_URI_def VSCODE_URI_def JSON_parse_any_def revive_range_plain range_of_def)
qed

lemma reviver_replacer_VSCodeURI:
  assumes "\<not> is_TheiaURI v" and "\<not> Range_is v" and "truthy v" and "js_get v ''$mid'' = JNum 1"
  shows "reviver env (replacer env v)
     = (case VSCodeURI_parse env (JStr (VSCodeURI_toString env (VSCodeURI_revive env v))) of
          None \<Rightarrow> Inl UriError | Some w \<Rightarrow> Inr (JVSCodeURI w))"
proof -
  have "replacer env v
      = SerializedObject VSCODE_URI (JStr (VSCodeURI_toString env (VSCodeURI_revive env v)))"
    using assms by (cases v) (simp_all add: replacer_def is_TheiaURI_def)
  then show ?thesis
    by (simp add: reviver_def SerializedObject_def isSerializedObject_def THEIA_URI_def
        VSCODE_URI_def)
qed

lemma replacer_other:
  assumes "\<not> is_TheiaURI v" and "\<not> Range_is v" and "\<not> (truthy v \<and> js_get v ''$mid'' = JNum 1)"
  shows "replacer env v = v"
  using assms by (cases v) (simp_all add: replacer_def is_TheiaURI_def)

lemma reviver_untagged: "\<not> tagged v \<Longrightarrow> reviver env v = Inr v"
  by (auto simp: reviver_def tagged_def)

lemma JSON_stringify_object: "\<exists>t. JSON_stringify env (\<lambda>x. x) (JObj fs) = Some t"
  by (simp add: JSON_stringify_def)

lemma replacer_Range:
  assumes "Range_is v"
  shows "\<exists>t. replacer env v = SerializedObject THEIA_RANGE (JStr t)"
proof -
  obtain fs where v: "v = JObj fs" using Range_is_not_TheiaURI [OF assms] by blast
  obtain t where t: "JSON_stringify env (\<lambda>x. x)
      (JObj [(''start'', JObj [(''line'', js_get (js_get v ''start'') ''line''),
                               (''character'', js_get (js_get v ''start'') ''character'')]),
             (''end'', JObj [(''line'', js_get (js_get v ''end'') ''line''),
                             (''character'', js_get (js_get v ''end'') ''character'')])]) = Some t"
    using JSON_stringify_object by blast
  have "replacer env v = SerializedObject THEIA_RANGE (JStr t)"
    using assms t unfolding replacer_def v by (simp add: Let_def text_value_def)
  then show ?thesis by blast
qed

lemma reviver_primitive:
  "reviver env JNull = Inr JNull"
  "reviver env (JBool b) = Inr (JBool b)"
  "reviver env (JNum n) = Inr (JNum n)"
  "reviver env (JStr s) = Inr (JStr s)"
  "reviver env (JArr xs) = Inr (JArr xs)"
  by (simp_all add: reviver_def isSerializedObject_def)

lemma internalize_SerializedObject:
  "internalize (reviver env) (SerializedObject k (JStr t)) = reviver env (SerializedObject k (JStr t))"
  by (simp add: SerializedObject_def reviver_primitive)

lemma plain_SerializedObject: "plain (SerializedObject k (JStr t))"
  by (simp add: SerializedObject_def)

lemma lookup_prop_strings:
  "lookup_prop (map (\<lambda>(k, s). (k, JStr s)) cs) key = JUndefined
   \<or> (\<exists>s. lookup_prop (map (\<lambda>(k, s). (k, JStr s)) cs) key = JStr s)"
  by (induction cs) auto

lemma not_Position_is_string: "v = JUndefined \<or> (\<exists>s. v = JStr s) \<Longrightarrow> \<not> Position_is v"
  by (auto simp: Position_is_def)

lemma toJSON_VSCodeURI_facts:
  "\<not> is_TheiaURI (toJSON env (JVSCodeURI w))"
  "\<not> Range_is (toJSON env (JVSCodeURI w))"
  "truthy (toJSON env (JVSCodeURI w))"
  "js_get (toJSON env (JVSCodeURI w)) ''$mid'' = JNum 1"
proof -
  show "\<not> is_TheiaURI (toJSON env (JVSCodeURI w))" by (simp add: toJSON_def is_TheiaURI_def)
  show "truthy (toJSON env (JVSCodeURI w))" by (simp add: toJSON_def)
  show "js_get (toJSON env (JVSCodeURI w)) ''$mid'' = JNum 1" by (simp add: toJSON_def)
  have "\<not> Position_is (lookup_prop (map (\<lambda>(k, s). (k, JStr s)) (VSCodeURI_toJSON env w)) ''start'')"
    using lookup_prop_strings [of "VSCodeURI_toJSON env w" "''start''"]
    by (rule not_Position_is_string)
  then have "\<not> Position_is (js_get (toJSON env (JVSCodeURI w)) ''start'')"
    by (simp add: toJSON_def)
  then show "\<not> Range_is (toJSON env (JVSCodeURI w))" by (simp add: Range_is_def toJSON_def)
qed

lemma replacer_primitive:
  "replacer env JNull = JNull"
  "replacer env (JBool b) = JBool b"
  "replacer env (JNum n) = JNum n"
  "replacer env (JStr s) = JStr s"
  "replacer env (JArr xs) = JArr xs"
  by (simp_all add: replacer_def Range_is_def)

lemma SerializedObject_neq_range: "range_of v = v \<Longrightarrow> SerializedObject k d \<noteq> v"
  by (auto simp: range_of_def SerializedObject_def)

lemma transfer_round_trip_aux:
  fixes v :: "'u jsval" and xs :: "'u jsval list" and fs :: "(string \<times> 'u jsval) list"
  shows "transferable env v \<longrightarrow>
           plain (prepare env (replacer env) v)
           \<and> internalize (reviver env) (prepare env (replacer env) v) = Inr v"
    and "transferable_elements env xs \<longrightarrow>
           plain_elements (prepare_elements env (replacer env) xs)
           \<and> internalize_elements (reviver env) (prepare_elements env (replacer env) xs) = Inr xs"
    and "transferable_members env fs \<longrightarrow>
           plain_members (prepare_members env (replacer env) fs)
           \<and> map fst (prepare_members env (replacer env) fs) = map fst fs
           \<and> internalize_members (reviver env) (prepare_members env (replacer env) fs) = Inr fs"
proof (induction env v and env xs and env fs
    rule: transferable_transferable_elements_transferable_members.induct)
  case (6 env xs)
  then show ?case by (simp add: replacer_primitive reviver_primitive)
next
  case (7 env fs)
  show ?case
  proof (intro impI)
    assume t: "transferable env (JObj fs)"
    show "plain (prepare env (replacer env) (JObj fs))
        \<and> internalize (reviver env) (prepare env (replacer env) (JObj fs)) = Inr (JObj fs)"
    proof (cases "Range_is (JObj fs)")
      case True
      with t have eq: "range_of (JObj fs) = JObj fs" and ir: "integer_range (JObj fs)"
        by simp_all
      obtain tx where tx: "replacer env (JObj fs) = SerializedObject THEIA_RANGE (JStr tx)"
        using replacer_Range [OF True] by blast
      have ne: "replacer env (JObj fs) \<noteq> JObj fs"
        using SerializedObject_neq_range [OF eq] by (simp add: tx)
      then have p: "prepare env (replacer env) (JObj fs) = SerializedObject THEIA_RANGE (JStr tx)"
        by (simp add: tx)
      have "internalize (reviver env) (SerializedObject THEIA_RANGE (JStr tx))
          = reviver env (replacer env (JObj fs))"
        by (simp add: internalize_SerializedObject tx)
      then show ?thesis
        unfolding p using reviver_replacer_Range [OF True ir, of env] eq
        by (simp add: plain_SerializedObject)
    next
      case False
      with t have tm: "transferable_members env fs" and d: "distinct (map fst fs)"
        and nt: "\<not> tagged (JObj fs)" and nm: "js_get (JObj fs) ''$mid'' \<noteq> JNum 1"
        by simp_all
      have r: "replacer env (JObj fs) = JObj fs"
        using replacer_other [of "JObj fs" env] False nm by (simp add: is_TheiaURI_def)
      from 7 False tm
      have ih: "plain_members (prepare_members env (replacer env) fs)"
        "map fst (prepare_members env (replacer env) fs) = map fst fs"
        "internalize_members (reviver env) (prepare_members env (replacer env) fs) = Inr fs"
        by simp_all
      have p: "prepare env (replacer env) (JObj fs) = JObj (prepare_members env (replacer env) fs)"
        by (simp add: r)
      show ?thesis
        unfolding p using ih d reviver_untagged [OF nt, of env] by simp
    qed
  qed
next
  case (8 env u)
  show ?case
  proof (intro impI)
    assume t: "transferable env (JTheiaURI u)"
    have p: "prepare env (replacer env) (JTheiaURI u)
        = SerializedObject THEIA_URI (JStr (URI_toString env u))"
      by (simp add: replacer_def)
    have "internalize (reviver env) (SerializedObject THEIA_URI (JStr (URI_toString env u)))
        = reviver env (replacer env (JTheiaURI u))"
      by (simp add: internalize_SerializedObject replacer_def)
    then show "plain (prepare env (replacer env) (JTheiaURI u))
        \<and> internalize (reviver env) (prepare env (replacer env) (JTheiaURI u)) = Inr (JTheiaURI u)"
      unfolding p using t by (simp add: plain_SerializedObject reviver_replacer_TheiaURI)
  qed
next
  case (9 env w)
  show ?case
  proof (intro impI)
    assume t: "transferable env (JVSCodeURI w)"
    let ?j = "toJSON env (JVSCodeURI w)"
    note f = toJSON_VSCodeURI_facts [of env w]
    have r: "replacer env ?j
        = SerializedObject VSCODE_URI (JStr (VSCodeURI_toString env (VSCodeURI_revive env ?j)))"
      using f by (cases ?j) (simp_all add: replacer_def is_TheiaURI_def)
    have "internalize (reviver env) (replacer env ?j) = reviver env (replacer env ?j)"
      by (simp add: r internalize_SerializedObject)
    moreover have p: "prepare env (replacer env) (JVSCodeURI w) = replacer env ?j" by simp
    ultimately show "plain (prepare env (replacer env) (JVSCodeURI w))
        \<and> internalize (reviver env) (prepare env (replacer env) (JVSCodeURI w)) = Inr (JVSCodeURI w)"
      unfolding p using t reviver_replacer_VSCodeURI [OF f, of env]
      by (simp add: plain_SerializedObject r)
  qed
next
  case (16 env k x fs)
  show ?case
  proof (intro impI)
    assume t: "transferable_members env ((k, x) # fs)"
    then have tx: "transferable env x" and tf: "transferable_members env fs" by simp_all
    from tx have "x \<noteq> JUndefined" by auto
    with 16 tx tf show "plain_members (prepare_members env (replacer env) ((k, x) # fs))
        \<and> map fst (prepare_members env (replacer env) ((k, x) # fs)) = map fst ((k, x) # fs)
        \<and> internalize_members (reviver env) (prepare_members env (replacer env) ((k, x) # fs))
            = Inr ((k, x) # fs)"
      by simp
  qed
qed (simp_all add: replacer_primitive reviver_primitive)

section \<open>Decoding inverts the message factory\<close>

lemma escape_char_safe:
  "c \<noteq> dquote \<Longrightarrow> c \<noteq> backslash \<Longrightarrow> \<not> (of_char c :: nat) < 32 \<Longrightarrow> escape_char c = [c]"
  by (auto simp: escape_char_def)

lemma concat_escape_safe: "json_safe s \<Longrightarrow> concat (map escape_char s) = s"
  by (induction s) (simp_all add: json_safe_def escape_char_safe)

lemma QuoteJSONString_safe: "json_safe s \<Longrightarrow> QuoteJSONString s = quoted s"
  by (simp add: QuoteJSONString_def quoted_def concat_escape_safe)

lemma json_safe_digits_of: "json_safe (digits_of n)"
proof -
  have "\<forall>c \<in> set (digits_of n). c \<noteq> dquote \<and> c \<noteq> backslash \<and> \<not> (of_char c :: nat) < 32"
    using digits_of_all_digits [of n] by (auto simp: is_digit_def dquote_def backslash_def)
  then show ?thesis by (simp add: json_safe_def list_all_iff)
qed

lemma json_safe_keys:
  "json_safe ''type''" "json_safe ''id''" "json_safe ''proxyId''" "json_safe ''method''"
  "json_safe ''args''" "json_safe ''res''" "json_safe ''err''" "json_safe ''hostID''"
  "json_safe ''$isError''" "json_safe ''name''" "json_safe ''message''" "json_safe ''stack''"
  by (simp_all add: json_safe_def dquote_def backslash_def)

lemma quoted_not_Nil [simp]: "quoted s \<noteq> []"
  by (simp add: quoted_def)

lemma show_int_small:
  "show_int 1 = ''1''" "show_int 2 = ''2''" "show_int 3 = ''3''" "show_int 4 = ''4''"
  by (simp_all add: show_int_def digits_of.simps digit_char_def char_of_eqI)

lemma decode_object:
  assumes "distinct (map fst fs)" and "plain_members fs" and "serialize (JObj fs) = Some t"
    and "internalize_members (reviver env) fs = Inr gs" and "\<not> tagged (JObj gs)"
  shows "JSON_parse_reviver (reviver env) t = Inr (JObj gs)"
proof -
  have "plain (JObj fs)" using assms(1,2) by simp
  then have "JSON_parse t = Some (JObj fs)" using assms(3) by (rule JSON_parse_serialize)
  then show ?thesis
    using assms(4) reviver_untagged [OF assms(5), of env] by (simp add: JSON_parse_reviver_def)
qed

lemma hostID_prefix_None: "hostID_prefix None = []" "hostID_prefix (Some []) = []"
  by (simp_all add: hostID_prefix_def)

lemma host_cases:
  assumes "host_safe h"
  obtains (none) "hostID_prefix h = []" "h = None \<or> h = Some []"
  | (some) x where "hostID_prefix h = quoted ''hostID'' @ '':'' @ quoted x @ '',''"
      "h = Some x" "x \<noteq> []" "json_safe x"
proof (cases h)
  case None
  then show ?thesis using none by (simp add: hostID_prefix_def)
next
  case (Some x)
  show ?thesis
  proof (cases "x = []")
    case True
    then show ?thesis using none Some by (simp add: hostID_prefix_def)
  next
    case False
    then show ?thesis using some [of x] Some assms
      by (simp add: hostID_prefix_def host_safe_def)
  qed
qed

lemma host_field_none: "h = None \<or> h = Some [] \<Longrightarrow> host_field h = []"
  by (auto simp: host_field_def)

lemma host_field_some: "h = Some x \<Longrightarrow> x \<noteq> [] \<Longrightarrow> host_field h = [(''hostID'', JStr x)]"
  by (simp add: host_field_def)

lemma transfer_round_trip:
  assumes "transferable env v"
  shows "plain (prepare env (replacer env) v)"
    and "internalize (reviver env) (prepare env (replacer env) v) = Inr v"
  using transfer_round_trip_aux(1) [of env v] assms by simp_all

lemma stringify_transferable:
  assumes "transferable env v"
  obtains t where "JSON_stringify env (replacer env) v = Some t"
    and "serialize (prepare env (replacer env) v) = Some t"
  using serialize_plain_starts [OF transfer_round_trip(1) [OF assms]]
  by (auto simp: JSON_stringify_def)

lemma message_text:
  assumes "host_safe h" and "json_safe i" and "plain_members body"
  shows "serialize (JObj (host_field h @ (''type'', JNum ty) # (''id'', JStr i) # body))
     = Some (''{'' @ hostID_prefix h @ quoted ''type'' @ '':'' @ show_int ty @ '',''
             @ quoted ''id'' @ '':'' @ quoted i
             @ (if body = [] then [] else '','' @ serialize_members body) @ ''}'')"
proof -
  note e = serialize_members_Nil_iff [OF assms(3)]
  from assms(1) show ?thesis
  proof (cases rule: host_cases)
    case none
    show ?thesis
      using assms(2) e
      by (simp add: host_field_none [OF none(2)] none(1) QuoteJSONString_safe json_safe_keys)
  next
    case (some x)
    show ?thesis
      using assms(2) e some(4)
      by (simp add: host_field_some [OF some(2,3)] some(1) QuoteJSONString_safe json_safe_keys)
  qed
qed

lemma decode_message:
  assumes "host_safe h" and "json_safe i" and "plain_members body"
    and "distinct (map fst body)"
    and "''hostID'' \<notin> fst ` set body" and "''type'' \<notin> fst ` set body"
    and "''id'' \<notin> fst ` set body"
    and "internalize_members (reviver env) body = Inr body'"
    and "lookup_prop body' ''$type'' = JUndefined"
  shows "JSON_parse_reviver (reviver env)
           (''{'' @ hostID_prefix h @ quoted ''type'' @ '':'' @ show_int ty @ '',''
            @ quoted ''id'' @ '':'' @ quoted i
            @ (if body = [] then [] else '','' @ serialize_members body) @ ''}'')
         = Inr (JObj (host_field h @ (''type'', JNum ty) # (''id'', JStr i) # body'))"
proof -
  let ?fs = "host_field h @ (''type'', JNum ty) # (''id'', JStr i) # body"
  let ?gs = "host_field h @ (''type'', JNum ty) # (''id'', JStr i) # body'"
  have h: "host_field h = ([] :: (string \<times> 'a jsval) list)
      \<or> (\<exists>x. host_field h = ([(''hostID'', JStr x)] :: (string \<times> 'a jsval) list))"
    by (auto simp: host_field_def split: option.split)
  have 1: "distinct (map fst ?fs)" using h assms(4-7) by (elim disjE exE) simp_all
  have 2: "plain_members ?fs" using h assms(3) by auto
  have 3: "internalize_members (reviver env) ?fs = Inr ?gs"
    using h assms(8) by (auto simp: reviver_primitive)
  have 4: "\<not> tagged (JObj ?gs)"
    using h assms(9) by (auto simp: tagged_def isSerializedObject_def)
  show ?thesis
    by (rule decode_object [OF 1 2 message_text [OF assms(1-3)] 3 4])
qed

lemma decode_request:
  assumes "json_safe i" and "json_safe p" and "json_safe m" and "host_safe h"
    and "transferable_elements env args"
  shows "JSON_parse_reviver (reviver env) (MessageFactory_request env i p m args h)
           = Inr (request_record h i p m args)"
proof -
  let ?A = "prepare env (replacer env) (JArr args)"
  have ta: "transferable env (JArr args)" using assms(5) by simp
  obtain t where t: "JSON_stringify env (replacer env) (JArr args) = Some t"
      "serialize ?A = Some t"
    using stringify_transferable [OF ta] by blast
  note rt = transfer_round_trip [OF ta]
  let ?body = "[(''proxyId'', JStr p), (''method'', JStr m), (''args'', ?A)]"
  have tx: "MessageFactory_request env i p m args h
      = ''{'' @ hostID_prefix h @ quoted ''type'' @ '':'' @ show_int 1 @ '',''
        @ quoted ''id'' @ '':'' @ quoted i
        @ (if ?body = [] then [] else '','' @ serialize_members ?body) @ ''}''"
    using assms(2,3) t
    by (simp add: MessageFactory_request_def template_text_def QuoteJSONString_safe
        json_safe_keys show_int_small)
  have "JSON_parse_reviver (reviver env) (MessageFactory_request env i p m args h)
      = Inr (JObj (host_field h @ (''type'', JNum 1) # (''id'', JStr i)
                   # [(''proxyId'', JStr p), (''method'', JStr m), (''args'', JArr args)]))"
    unfolding tx
    by (rule decode_message [OF assms(4,1)]) (use rt in \<open>simp_all add: reviver_primitive\<close>)
  then show ?thesis by (simp add: request_record_def)
qed


lemma decode_replyOK_undefined:
  assumes "json_safe i" and "host_safe h"
  shows "JSON_parse_reviver (reviver env) (MessageFactory_replyOK env i JUndefined h)
           = Inr (reply_record h i JUndefined)"
proof -
  let ?body = "[] :: (string \<times> 'a jsval) list"
  have tx: "MessageFactory_replyOK env i JUndefined h
      = ''{'' @ hostID_prefix h @ quoted ''type'' @ '':'' @ show_int 2 @ '',''
        @ quoted ''id'' @ '':'' @ quoted i
        @ (if ?body = [] then [] else '','' @ serialize_members ?body) @ ''}''"
    by (simp add: MessageFactory_replyOK_def show_int_small)
  have "JSON_parse_reviver (reviver env) (MessageFactory_replyOK env i JUndefined h)
      = Inr (JObj (host_field h @ (''type'', JNum 2) # (''id'', JStr i) # ?body))"
    unfolding tx by (rule decode_message [OF assms(2,1)]) simp_all
  then show ?thesis by (simp add: reply_record_def)
qed

lemma decode_replyOK:
  assumes "json_safe i" and "host_safe h" and "transferable env res"
  shows "JSON_parse_reviver (reviver env) (MessageFactory_replyOK env i res h)
           = Inr (reply_record h i res)"
proof -
  let ?R = "prepare env (replacer env) res"
  obtain t where t: "JSON_stringify env (replacer env) res = Some t" "serialize ?R = Some t"
    using stringify_transferable [OF assms(3)] by blast
  note rt = transfer_round_trip [OF assms(3)]
  from assms(3) have ne: "res \<noteq> JUndefined" by auto
  let ?body = "[(''res'', ?R)]"
  have tx: "MessageFactory_replyOK env i res h
      = ''{'' @ hostID_prefix h @ quoted ''type'' @ '':'' @ show_int 2 @ '',''
        @ quoted ''id'' @ '':'' @ quoted i
        @ (if ?body = [] then [] else '','' @ serialize_members ?body) @ ''}''"
    using t ne
    by (simp add: MessageFactory_replyOK_def template_text_def QuoteJSONString_safe
        json_safe_keys show_int_small)
  have "JSON_parse_reviver (reviver env) (MessageFactory_replyOK env i res h)
      = Inr (JObj (host_field h @ (''type'', JNum 2) # (''id'', JStr i) # [(''res'', res)]))"
    unfolding tx
    by (rule decode_message [OF assms(2,1)]) (use rt ne in \<open>simp_all add: reviver_primitive\<close>)
  then show ?thesis using ne by (simp add: reply_record_def)
qed

lemma string_or_undefined_cases:
  assumes "string_or_undefined v"
  obtains (str) x where "v = JStr x" | (undef) "v = JUndefined"
  using assms by (cases v) (simp_all add: string_or_undefined_def)

lemma prepare_members_id_error:
  "string_or_undefined st \<Longrightarrow>
   prepare env (\<lambda>x. x) (JObj [(''$isError'', JBool True), (''name'', JStr n), (''message'', JStr m),
                            (''stack'', st)])
   = JObj [(''$isError'', JBool True), (''name'', JStr n), (''message'', JStr m), (''stack'', st)]"
  by (erule string_or_undefined_cases) simp_all

lemma serialize_error_record:
  assumes "string_or_undefined st"
  shows "plain (error_record (JStr n) (JStr m) st :: 'u jsval)"
    and "JSON_stringify env (\<lambda>x. x)
           (JObj [(''$isError'', JBool True), (''name'', JStr n), (''message'', JStr m),
                  (''stack'', st)])
         = serialize (error_record (JStr n) (JStr m) st :: 'u jsval)"
    and "internalize (reviver env) (error_record (JStr n) (JStr m) st)
         = Inr (error_record (JStr n) (JStr m) st)"
proof -
  show "plain (error_record (JStr n) (JStr m) st :: 'u jsval)"
    using assms by (cases rule: string_or_undefined_cases) (simp_all add: error_record_def)
  show "JSON_stringify env (\<lambda>x. x)
           (JObj [(''$isError'', JBool True), (''name'', JStr n), (''message'', JStr m),
                  (''stack'', st)])
         = serialize (error_record (JStr n) (JStr m) st :: 'u jsval)"
    unfolding JSON_stringify_def prepare_members_id_error [OF assms]
    using assms by (cases rule: string_or_undefined_cases) (simp_all add: error_record_def)
  have "\<not> tagged (error_record (JStr n) (JStr m) st)"
    by (simp add: tagged_def isSerializedObject_def error_record_def)
  then have r: "reviver env (error_record (JStr n) (JStr m) st)
      = Inr (error_record (JStr n) (JStr m) st)"
    by (rule reviver_untagged)
  from assms show "internalize (reviver env) (error_record (JStr n) (JStr m) st)
         = Inr (error_record (JStr n) (JStr m) st)"
  proof (cases rule: string_or_undefined_cases)
    case (str x)
    with r show ?thesis by (simp add: error_record_def reviver_primitive)
  next
    case undef
    with r show ?thesis by (simp add: error_record_def reviver_primitive)
  qed
qed

lemma decode_replyErr_error:
  assumes "json_safe i" and "host_safe h"
    and "string_or_undefined st" and "string_or_undefined stt"
  shows "JSON_parse_reviver (reviver env)
           (MessageFactory_replyErr env i (JErr (JStr n) (JStr m) st stt) h)
         = Inr (replyErr_record h i
                  (error_record (JStr n) (JStr m) (if truthy stt then stt else st)))"
proof -
  define S where "S = (if truthy stt then stt else st)"
  let ?E = "error_record (JStr n) (JStr m) S :: 'a jsval"
  have s: "string_or_undefined S" using assms(3,4) by (simp add: S_def)
  note E = serialize_error_record [OF s]
  obtain te where te: "serialize ?E = Some te" using serialize_plain_starts [OF E(1)] by blast
  have T: "transformErrorForSerialization (JErr (JStr n) (JStr m) st stt)
      = JObj [(''$isError'', JBool True), (''name'', JStr n), (''message'', JStr m), (''stack'', S)]"
    by (simp add: transformErrorForSerialization_def is_Error_def S_def)
  let ?body = "[(''err'', ?E)]"
  have tx: "MessageFactory_replyErr env i (JErr (JStr n) (JStr m) st stt) h
      = ''{'' @ hostID_prefix h @ quoted ''type'' @ '':'' @ show_int 3 @ '',''
        @ quoted ''id'' @ '':'' @ quoted i
        @ (if ?body = [] then [] else '','' @ serialize_members ?body) @ ''}''"
    using te
    by (simp add: MessageFactory_replyErr_def is_Error_def T E(2)
        template_text_def QuoteJSONString_safe json_safe_keys show_int_small)
  have ne: "?E \<noteq> JUndefined" by (simp add: error_record_def)
  have "JSON_parse_reviver (reviver env)
          (MessageFactory_replyErr env i (JErr (JStr n) (JStr m) st stt) h)
      = Inr (JObj (host_field h @ (''type'', JNum 3) # (''id'', JStr i) # [(''err'', ?E)]))"
    unfolding tx
    by (rule decode_message [OF assms(2,1)]) (use E ne in \<open>simp_all\<close>)
  then show ?thesis by (simp add: replyErr_record_def S_def)
qed

lemma replyErr_string:
  "MessageFactory_replyErr env i (JStr x) h = MessageFactory_replyErr env i (new_Error env x) h"
  by (simp add: MessageFactory_replyErr_def new_Error_def)

lemma decode_replyErr_other:
  assumes "json_safe i" and "host_safe h" and "\<not> is_Error e" and "as_string e = None"
  shows "JSON_parse_reviver (reviver env) (MessageFactory_replyErr env i e h)
         = Inr (replyErr_record h i JNull)"
proof -
  let ?body = "[(''err'', JNull)] :: (string \<times> 'a jsval) list"
  have e1: "(case e of JStr s \<Rightarrow> new_Error env s | _ \<Rightarrow> e) = e"
    using assms(4) by (cases e) (simp_all add: as_string_def)
  have tx: "MessageFactory_replyErr env i e h
      = ''{'' @ hostID_prefix h @ quoted ''type'' @ '':'' @ show_int 3 @ '',''
        @ quoted ''id'' @ '':'' @ quoted i
        @ (if ?body = [] then [] else '','' @ serialize_members ?body) @ ''}''"
    using assms(3)
    by (simp add: MessageFactory_replyErr_def e1 QuoteJSONString_safe json_safe_keys
        show_int_small)
  have "JSON_parse_reviver (reviver env) (MessageFactory_replyErr env i e h)
      = Inr (JObj (host_field h @ (''type'', JNum 3) # (''id'', JStr i) # ?body))"
    unfolding tx
    by (rule decode_message [OF assms(2,1)]) (simp_all add: reviver_primitive)
  then show ?thesis by (simp add: replyErr_record_def)
qed

lemma message_fields:
  "lookup_prop (host_field h @ (''type'', JNum ty) # (''id'', JStr i) # body) ''type'' = JNum ty"
  "lookup_prop (host_field h @ (''type'', JNum ty) # (''id'', JStr i) # body) ''id'' = JStr i"
  by (auto simp: host_field_def split: option.split)

lemma message_body_field:
  "k \<noteq> ''hostID'' \<Longrightarrow> k \<noteq> ''type'' \<Longrightarrow> k \<noteq> ''id'' \<Longrightarrow>
   lookup_prop (host_field h @ (''type'', JNum ty) # (''id'', JStr i) # body) k
     = lookup_prop body k"
  by (auto simp: host_field_def split: option.split)

lemma message_hostID:
  "lookup_prop body ''hostID'' = JUndefined \<Longrightarrow>
   lookup_prop (host_field h @ (''type'', JNum ty) # (''id'', JStr i) # body) ''hostID''
     = (case h of None \<Rightarrow> JUndefined | Some x \<Rightarrow> if x = [] then JUndefined else JStr x)"
  by (auto simp: host_field_def split: option.split)

lemma receiveOneMessage_decoded:
  assumes "\<not> isDisposed s"
    and "JSON_parse_reviver (reviver env) raw
           = Inr (JObj (host_field h @ (''type'', JNum ty) # (''id'', JStr i) # body))"
    and "accepts_host s h"
    and "lookup_prop body ''setHostID'' = JUndefined"
    and "lookup_prop body ''hostID'' = JUndefined"
  shows "receiveOneMessage env s raw
           = dispatch env s (JObj (host_field h @ (''type'', JNum ty) # (''id'', JStr i) # body))"
proof -
  let ?msg = "JObj (host_field h @ (''type'', JNum ty) # (''id'', JStr i) # body)"
  have 1: "get_member ?msg ''setHostID'' = Inr JUndefined"
    using assms(4) by (simp add: get_member_def message_body_field)
  have 2: "\<not> (case remoteHostID s of
               None \<Rightarrow> False
             | Some r \<Rightarrow> r \<noteq> [] \<and> truthy (js_get ?msg ''hostID'') \<and> JStr r \<noteq> js_get ?msg ''hostID'')"
    using assms(3) by (auto simp: message_hostID [OF assms(5)] accepts_host_def split: option.splits)
  show ?thesis
    using assms(1) 2 by (simp add: receiveOneMessage_def assms(2) 1)
qed




lemma serialize_json_image:
  fixes v :: "'u jsval" and xs :: "'u jsval list" and fs :: "(string \<times> 'u jsval) list"
  shows "v \<noteq> JUndefined \<longrightarrow> serialize (json_image v) = serialize v"
    and "serialize_elements (json_image_elements xs) = serialize_elements xs"
    and "serialize_members (json_image_members fs) = serialize_members fs"
proof (induction v and xs and fs rule: json_image_json_image_elements_json_image_members.induct)
  case (14 x xs)
  have x: "(case serialize (json_image x) of None \<Rightarrow> ''null'' | Some t \<Rightarrow> t)
      = (case serialize x of None \<Rightarrow> ''null'' | Some t \<Rightarrow> t)"
    using 14(1) by (cases "x = JUndefined") simp_all
  show ?case
  proof (cases xs)
    case Nil
    then show ?thesis using x by simp
  next
    case (Cons y ys)
    then show ?thesis using x 14(2) by simp
  qed
next
  case (16 k x fs)
  show ?case
  proof (cases "x = JUndefined")
    case True
    then show ?thesis using 16(1) by simp
  next
    case False
    then show ?thesis using 16(2,3) by (simp split: option.split)
  qed
qed simp_all








lemma proper_transferable:
  fixes v :: "'u jsval" and xs :: "'u jsval list" and fs :: "(string \<times> 'u jsval) list"
  shows "transferable env v \<longrightarrow> proper v"
    and "transferable_elements env xs \<longrightarrow> proper_elements xs"
    and "transferable_members env fs \<longrightarrow> proper_members fs"
proof (induction env v and env xs and env fs
    rule: transferable_transferable_elements_transferable_members.induct)
  case (7 env fs)
  show ?case
  proof (intro impI)
    assume t: "transferable env (JObj fs)"
    show "proper (JObj fs)"
    proof (cases "Range_is (JObj fs)")
      case True
      with t have eq: "range_of (JObj fs) = JObj fs" and ir: "integer_range (JObj fs)"
        by simp_all
      from ir obtain a b c d where "js_get (js_get (JObj fs) ''start'') ''line'' = JNum a"
        "js_get (js_get (JObj fs) ''start'') ''character'' = JNum b"
        "js_get (js_get (JObj fs) ''end'') ''line'' = JNum c"
        "js_get (js_get (JObj fs) ''end'') ''character'' = JNum d"
        by (rule integer_range_cases)
      then have "proper (range_of (JObj fs))" by (simp add: range_of_def)
      then show ?thesis by (simp only: eq)
    next
      case False
      with 7 t show ?thesis by simp
    qed
  qed
qed simp_all


lemma reviver_defined:
  assumes "reviver env v = Inr v'" and "v \<noteq> JUndefined"
  shows "v' \<noteq> JUndefined"
proof (cases "tagged v")
  case False
  with assms show ?thesis by (simp add: reviver_untagged)
next
  case True
  then have s: "isSerializedObject v" by (simp add: tagged_def)
  from True consider "js_get v ''$type'' = JNum THEIA_URI" | "js_get v ''$type'' = JNum VSCODE_URI"
    | "js_get v ''$type'' = JNum THEIA_RANGE" by (auto simp: tagged_def)
  then show ?thesis
  proof cases
    case 1
    with assms(1) s show ?thesis by (auto simp: reviver_def split: option.splits)
  next
    case 2
    with assms(1) s show ?thesis
      by (auto simp: reviver_def THEIA_URI_def VSCODE_URI_def split: option.splits)
  next
    case 3
    with assms(1) s show ?thesis
      by (auto simp: reviver_def THEIA_URI_def VSCODE_URI_def THEIA_RANGE_def revive_range_def
          Range_create_def split: option.splits sum.splits if_splits)
  qed
qed



section \<open>The engine\<close>

lemma fresh_engine_new: "RPCProtocolImpl_new None = Inr (fresh_engine, [])"
  by (simp add: RPCProtocolImpl_new_def RPCMultiplexer_new_def fresh_engine_def)



lemma served_engine_set:
  "set_instance fresh_engine ''A'' [(''$wait'', Method (\<lambda>args. ReturnsPromise)),
       (''$greet'', Method (\<lambda>args. Returns (JStr ''hi''))), (''label'', Field (JStr ''a''))]
   = Inr served_engine"
  by (simp add: set_instance_def served_engine_def fresh_engine_def isDisposed_def Disposable_is_def)

lemma disposed_engine_eq:
  "disposed_engine =
     fresh_engine\<lparr>multiplexor := \<lparr>messagesToSend = [], mux_toDispose = []\<rparr>, toDispose := []\<rparr>"
  by (simp add: disposed_engine_def dispose_def isDisposed_def fresh_engine_def
      RPCMultiplexer_dispose_def)

lemma isDisposed_disposed_engine: "isDisposed disposed_engine"
  by (simp add: disposed_engine_eq isDisposed_def)



lemma butlast_neq: "args \<noteq> [] \<Longrightarrow> butlast args \<noteq> args"
  by (metis length_butlast length_greater_0_conv diff_less zero_less_one less_irrefl)

lemma butlast_snoc_neq: "args \<noteq> [] \<Longrightarrow> last args \<noteq> x \<Longrightarrow> butlast args @ [x] \<noteq> args"
  by (metis last_snoc)

lemma rejections_append: "rejections (xs @ ys) = rejections xs @ rejections ys"
  by (induction xs rule: rejections.induct) simp_all

lemma rejections_map_Reject:
  "rejections (map (\<lambda>(k, reply). Reject reply v) m) = map (\<lambda>(k, reply). (reply, v)) m"
  by (induction m) auto

lemma fold_dispose_one:
  "fold (dispose_one env) ds (s, effs) = (s', effs') \<Longrightarrow>
   rejections effs' = rejections effs
       @ (if ClearProxiesAndReplies \<in> set ds
          then map (\<lambda>(k, reply). (reply, new_Error env ''connection is closed'')) (pendingRPCReplies s)
          else [])
   \<and> pendingRPCReplies s' = (if ClearProxiesAndReplies \<in> set ds then [] else pendingRPCReplies s)
   \<and> mux_toDispose (multiplexor s')
       = (if MultiplexorDisposable \<in> set ds then [] else mux_toDispose (multiplexor s))"
proof (induction ds arbitrary: s effs)
  case Nil
  then show ?case by simp
next
  case (Cons d ds)
  show ?case
  proof (cases d)
    case MarkAsNotDisposed
    with Cons.prems have "fold (dispose_one env) ds (s, effs) = (s', effs')" by simp
    from Cons.IH [OF this] show ?thesis using MarkAsNotDisposed by simp
  next
    case MultiplexorDisposable
    with Cons.prems have "fold (dispose_one env) ds
        (s\<lparr>multiplexor := RPCMultiplexer_dispose (multiplexor s)\<rparr>, effs) = (s', effs')" by simp
    from Cons.IH [OF this] show ?thesis using MultiplexorDisposable
      by (simp add: RPCMultiplexer_dispose_def)
  next
    case ClearProxiesAndReplies
    with Cons.prems have "fold (dispose_one env) ds
        (s\<lparr>proxies := [], pendingRPCReplies := []\<rparr>,
         effs @ map (\<lambda>(k, reply). Reject reply (new_Error env ''connection is closed''))
                  (pendingRPCReplies s)) = (s', effs')" by simp
    from Cons.IH [OF this] show ?thesis using ClearProxiesAndReplies
      by (simp add: rejections_append rejections_map_Reject)
  next
    case (InstanceDisposable i)
    with Cons.prems have "fold (dispose_one env) ds (s, effs @ [InstanceDisposed i]) = (s', effs')"
      by simp
    from Cons.IH [OF this] show ?thesis using InstanceDisposable by (simp add: rejections_append)
  next
    case (DeleteLocal i)
    with Cons.prems have "fold (dispose_one env) ds
        (s\<lparr>locals := Map_delete i (locals s)\<rparr>, effs) = (s', effs')" by simp
    from Cons.IH [OF this] show ?thesis using DeleteLocal by simp
  qed
qed

lemma map_fst_rejected: "map fst (map (\<lambda>(k, reply). (reply, v)) m) = map snd m"
  by (induction m) auto

lemma calling_engine_pending: "pendingRPCReplies calling_engine = [(''1'', 1), (''2'', 2)]"
  by (simp add: calling_engine_def remoteCall_def isDisposed_def served_engine_def
      fresh_engine_def CancellationToken_is_def send_def Let_def)
     (simp add: digits_of.simps digit_char_def char_of_eqI)

lemma calling_engine_toDispose:
  "toDispose calling_engine
     = [MarkAsNotDisposed, MultiplexorDisposable, ClearProxiesAndReplies, DeleteLocal ''A'']"
  by (simp add: calling_engine_def remoteCall_def isDisposed_def served_engine_def
      fresh_engine_def CancellationToken_is_def send_def Let_def)

lemma send_frame:
  "send m msg = Inr (m', effs) \<Longrightarrow> mux_toDispose m' = mux_toDispose m"
  by (auto simp: send_def split: if_splits)

lemma set_Map_delete: "set (Map_delete k m) \<subseteq> set m"
  by (induction m) (auto split: if_splits)

lemma set_Map_set: "set (Map_set k v m) \<subseteq> insert (k, v) (set m)"
  by (induction m) (auto split: if_splits)

lemma snd_Map_delete: "set (map snd (Map_delete k m)) \<subseteq> set (map snd m)"
  using image_mono [OF set_Map_delete [of k m], of snd] by simp

lemma snd_Map_set: "set (map snd (Map_set k v m)) \<subseteq> insert v (set (map snd m))"
  using image_mono [OF set_Map_set [of k v m], of snd] by simp

lemma distinct_Map_delete: "distinct (map snd m) \<Longrightarrow> distinct (map snd (Map_delete k m))"
proof (induction m)
  case Nil
  then show ?case by simp
next
  case (Cons a m)
  obtain k' v' where a: "a = (k', v')" by (cases a)
  from Cons.prems have v': "v' \<notin> set (map snd m)" and d: "distinct (map snd m)"
    by (simp_all add: a)
  from v' snd_Map_delete [of k m] have "v' \<notin> set (map snd (Map_delete k m))" by blast
  with Cons.IH [OF d] show ?case by (simp add: a)
qed

lemma distinct_Map_set:
  "distinct (map snd m) \<Longrightarrow> v \<notin> set (map snd m) \<Longrightarrow> distinct (map snd (Map_set k v m))"
proof (induction m)
  case Nil
  then show ?case by simp
next
  case (Cons a m)
  obtain k' v' where a: "a = (k', v')" by (cases a)
  from Cons.prems have v': "v' \<notin> set (map snd m)" and d: "distinct (map snd m)"
    and n: "v \<noteq> v'" and v: "v \<notin> set (map snd m)"
    by (auto simp: a)
  from v' n snd_Map_set [of k v m] have "v' \<notin> set (map snd (Map_set k v m))" by blast
  with Cons.IH [OF d v] v d show ?case by (simp add: a)
qed

lemma pending_ok_Nil: "pending_ok [] n"
  by (simp add: pending_ok_def)

lemma pending_ok_delete: "pending_ok m n \<Longrightarrow> pending_ok (Map_delete k m) n"
  unfolding pending_ok_def using snd_Map_delete [of k m] distinct_Map_delete [of m k] by blast

lemma pending_ok_set:
  assumes "pending_ok m n"
  shows "pending_ok (Map_set k (Suc n) m) (Suc n)"
proof -
  from assms have d: "distinct (map snd m)" and b: "\<forall>d \<in> set (map snd m). d \<le> n"
    by (simp_all add: pending_ok_def)
  from b have f: "Suc n \<notin> set (map snd m)" by fastforce
  have "\<forall>d \<in> set (map snd (Map_set k (Suc n) m)). d \<le> Suc n"
  proof
    fix x assume "x \<in> set (map snd (Map_set k (Suc n) m))"
    with snd_Map_set [of k "Suc n" m] have "x = Suc n \<or> x \<in> set (map snd m)" by blast
    with b show "x \<le> Suc n" by fastforce
  qed
  with distinct_Map_set [OF d f] show ?thesis by (simp add: pending_ok_def)
qed

lemma Map_delete_Nil: "m = [] \<Longrightarrow> Map_delete k m = []"
  by simp

lemma consistent_delete:
  "consistent s \<Longrightarrow> consistent (s\<lparr>pendingRPCReplies := Map_delete k (pendingRPCReplies s)\<rparr>)"
  by (simp add: consistent_def isDisposed_def pending_ok_delete split: if_splits)

lemma consistent_new: "RPCProtocolImpl_new h = Inr (s, effs) \<Longrightarrow> consistent s"
  by (auto simp: RPCProtocolImpl_new_def RPCMultiplexer_new_def consistent_def isDisposed_def pending_ok_Nil
      send_def Let_def split: option.splits if_splits sum.splits)

lemma consistent_getProxy: "consistent s \<Longrightarrow> getProxy s p = Inr s' \<Longrightarrow> consistent s'"
  by (auto simp: getProxy_def consistent_def isDisposed_def split: if_splits)

lemma consistent_set: "consistent s \<Longrightarrow> set_instance s p inst = Inr s' \<Longrightarrow> consistent s'"
  by (auto simp: set_instance_def consistent_def isDisposed_def split: if_splits)

lemma consistent_remoteCall:
  assumes "consistent s" and "remoteCall env s p m args = (s', args', effs, r)"
  shows "consistent s'"
proof (cases "isDisposed s")
  case True
  with assms show ?thesis by (simp add: remoteCall_def)
next
  case False
  let ?n = "Suc (lastMessageId s)"
  let ?s1 = "s\<lparr>lastMessageId := ?n,
                pendingRPCReplies := Map_set (digits_of ?n) ?n (pendingRPCReplies s)\<rparr>"
  have c1: "consistent ?s1"
    using assms(1) False by (simp add: consistent_def isDisposed_def pending_ok_set)
  have c2: "consistent (?s1\<lparr>multiplexor := mx\<rparr>)"
    if "mux_toDispose mx = mux_toDispose (multiplexor s)" for mx
    using c1 that False by (simp add: consistent_def isDisposed_def)
  from assms(2) False have "s' = s \<or> s' = ?s1
      \<or> (\<exists>mx msg effs2. send (multiplexor ?s1) msg = Inr (mx, effs2 :: 'a effect list)
            \<and> s' = ?s1\<lparr>multiplexor := mx\<rparr>)"
    by (auto simp: remoteCall_def Let_def split: if_splits sum.splits)
  then show ?thesis
    using assms(1) c1 c2 send_frame by fastforce
qed

lemma consistent_proxy_call:
  "consistent s \<Longrightarrow> proxy_call env s p m args = (s', args', effs, r) \<Longrightarrow> consistent s'"
  by (auto simp: proxy_call_def consistent_remoteCall split: list.splits if_splits)

lemma consistent_multiplexor:
  "consistent s \<Longrightarrow> mux_toDispose mx = mux_toDispose (multiplexor s)
   \<Longrightarrow> consistent (s\<lparr>multiplexor := mx\<rparr>)"
  by (auto simp: consistent_def isDisposed_def)

lemma consistent_token:
  "consistent s \<Longrightarrow> onCancellationRequested s i = Inr (s', effs) \<Longrightarrow> consistent s'"
  by (auto simp: onCancellationRequested_def consistent_multiplexor dest: send_frame
      split: sum.splits)

lemma consistent_flush:
  "consistent s \<Longrightarrow> sendAccumulated (multiplexor s) = (mx, effs)
   \<Longrightarrow> consistent (s\<lparr>multiplexor := mx\<rparr>)"
  by (auto simp: sendAccumulated_def consistent_multiplexor)

lemma consistent_sources:
  "consistent s \<Longrightarrow> consistent (s\<lparr>cancellationTokenSources := c\<rparr>)"
  by (auto simp: consistent_def isDisposed_def)

lemma consistent_hostId:
  "consistent s \<Longrightarrow> consistent (s\<lparr>messageToSendHostId := c\<rparr>)"
  by (auto simp: consistent_def isDisposed_def)

lemma consistent_receiveRequest:
  "consistent s \<Longrightarrow> consistent (fst (receiveRequest env s i p m a))"
  by (simp add: receiveRequest_def Let_def consistent_sources)

lemma consistent_receiveReply:
  "consistent s \<Longrightarrow> consistent (fst (receiveReply s i v))"
  by (simp add: receiveReply_def Let_def consistent_delete split: option.splits)

lemma consistent_receiveReplyErr:
  "consistent s \<Longrightarrow> consistent (fst (receiveReplyErr s i v))"
  by (simp add: receiveReplyErr_def Let_def consistent_delete split: option.splits)

lemma consistent_receiveCancel:
  "consistent s \<Longrightarrow> consistent (fst (receiveCancel s i))"
  by (simp add: receiveCancel_def consistent_sources split: option.splits)

lemma consistent_dispatch:
  assumes "consistent s"
  shows "consistent (fst (dispatch env s msg))"
  using assms
  by (simp add: dispatch_def case_prod_unfold consistent_receiveRequest consistent_receiveReply
      consistent_receiveReplyErr consistent_receiveCancel split: option.splits)

lemma consistent_message:
  assumes "consistent s" and "receiveOneMessage env s raw = (s', effs, r)"
  shows "consistent s'"
proof -
  have "s' = s \<or> (\<exists>hs. s' = s\<lparr>messageToSendHostId := Some hs\<rparr>)
      \<or> (\<exists>msg. s' = fst (dispatch env s msg))"
    using assms(2)
    by (auto simp: receiveOneMessage_def split: if_splits sum.splits option.splits)
       (metis fst_conv)+
  then show ?thesis
    using assms(1) consistent_hostId consistent_dispatch by auto
qed

lemma consistent_settled:
  assumes "consistent s" and "invocation_then env s i outcome = (s', effs, x)"
  shows "consistent s'"
proof -
  let ?s1 = "s\<lparr>cancellationTokenSources := Map_delete i (cancellationTokenSources s)\<rparr>"
  have "s' = s \<or> s' = ?s1
      \<or> (\<exists>mx msg effs2. send (multiplexor s) msg = Inr (mx, effs2 :: 'a effect list)
            \<and> s' = ?s1\<lparr>multiplexor := mx\<rparr>)"
    using assms(2)
    by (auto simp: invocation_then_def Let_def split: invocation.splits sum.splits)
  then show ?thesis
    using assms(1) consistent_sources [of s] consistent_multiplexor [of ?s1] send_frame
    by fastforce
qed

lemma consistent_dispose:
  assumes "consistent s" and "dispose env s = (s', effs)"
  shows "consistent s'"
proof (cases "isDisposed s")
  case True
  with assms show ?thesis by (simp add: dispose_def)
next
  case False
  obtain s1 effs1 where f: "fold (dispose_one env) (toDispose s) (s, []) = (s1, effs1)"
    by (cases "fold (dispose_one env) (toDispose s) (s, [])")
  from False f assms(2) have s': "s' = s1\<lparr>toDispose := []\<rparr>" by (auto simp: dispose_def)
  from fold_dispose_one [OF f] assms(1) False
  show ?thesis by (simp add: s' consistent_def isDisposed_def pending_ok_Nil)
qed

lemma reachable_consistent: "reachable env s \<Longrightarrow> consistent s"
proof (induction rule: reachable.induct)
  case (constructed h s effs)
  then show ?case by (rule consistent_new)
next
  case (after_getProxy s p s')
  then show ?case by (auto intro: consistent_getProxy)
next
  case (after_set s p inst s')
  then show ?case by (auto intro: consistent_set)
next
  case (after_call s p m args s' args' effs r)
  then show ?case by (auto intro: consistent_proxy_call)
next
  case (after_token s i s' effs)
  then show ?case by (auto intro: consistent_token)
next
  case (after_flush s mx effs)
  then show ?case by (auto intro: consistent_flush)
next
  case (after_message s raw s' effs r)
  then show ?case by (auto intro: consistent_message)
next
  case (after_settled s i outcome s' effs x)
  then show ?case by (auto intro: consistent_settled)
next
  case (after_dispose s s' effs)
  then show ?case by (auto intro: consistent_dispose)
qed

lemma reachable_live:
  "reachable env s \<Longrightarrow> \<not> isDisposed s \<Longrightarrow>
   ClearProxiesAndReplies \<in> set (toDispose s) \<and> MultiplexorDisposable \<in> set (toDispose s)
   \<and> mux_toDispose (multiplexor s) \<noteq> []"
  by (drule reachable_consistent) (simp add: consistent_def)

lemma reachable_disposed:
  "reachable env s \<Longrightarrow> isDisposed s \<Longrightarrow>
   pendingRPCReplies s = [] \<and> mux_toDispose (multiplexor s) = []"
  by (drule reachable_consistent) (simp add: consistent_def)

lemma reachable_pending:
  "reachable env s \<Longrightarrow> distinct (map snd (pendingRPCReplies s))"
  by (drule reachable_consistent) (simp add: consistent_def pending_ok_def)

lemma reachable_fresh_engine: "reachable example_env fresh_engine"
  by (rule reachable.constructed [OF fresh_engine_new])

lemma reachable_served_engine: "reachable example_env served_engine"
  by (rule reachable.after_set [OF reachable_fresh_engine served_engine_set])

lemma reachable_remoteCall:
  assumes "reachable env s" and "m \<noteq> []" and "(of_char (hd m) :: nat) = 36"
  shows "reachable env (fst (remoteCall env s p m args))"
proof -
  have "proxy_call env s p m args = remoteCall env s p m args"
    using assms(2,3) by (cases m) (simp_all add: proxy_call_def)
  then have "proxy_call env s p m args
      = (fst (remoteCall env s p m args), fst (snd (remoteCall env s p m args)),
         fst (snd (snd (remoteCall env s p m args))), snd (snd (snd (remoteCall env s p m args))))"
    by simp
  from reachable.after_call [OF assms(1) this] show ?thesis .
qed

lemma reachable_calling_engine: "reachable example_env calling_engine"
  unfolding calling_engine_def
  by (intro reachable_remoteCall reachable_served_engine) simp_all

section \<open>Receiving what the factory wrote\<close>

lemma replyOK_omits_res:
  "(MessageFactory_replyOK env i res h = MessageFactory_replyOK env i JUndefined h)
     = (res = JUndefined)"
  by (auto simp: MessageFactory_replyOK_def)

lemma receiveReply_pending:
  "Map_get (pendingRPCReplies s) i = Some d \<Longrightarrow>
   receiveReply s i v
     = (s\<lparr>pendingRPCReplies := Map_delete i (pendingRPCReplies s)\<rparr>, [Resolve d v])"
  by (simp add: receiveReply_def)

lemma dispatch_reply:
  "Map_get (pendingRPCReplies s) i = Some d \<Longrightarrow>
   dispatch env s (reply_record h i res)
     = (s\<lparr>pendingRPCReplies := Map_delete i (pendingRPCReplies s)\<rparr>, [Resolve d res],
        Inr Handled)"
  by (simp add: dispatch_def reply_record_def message_fields message_body_field as_string_def
      receiveReply_pending)

lemma receive_replyOK:
  assumes "json_safe i" and "host_safe h" and "\<not> isDisposed s" and "accepts_host s h"
    and "Map_get (pendingRPCReplies s) i = Some d"
    and "res = JUndefined \<or> transferable env res"
  shows "receiveOneMessage env s (MessageFactory_replyOK env i res h)
     = (s\<lparr>pendingRPCReplies := Map_delete i (pendingRPCReplies s)\<rparr>, [Resolve d res],
        Inr Handled)"
proof -
  have d: "JSON_parse_reviver (reviver env) (MessageFactory_replyOK env i res h)
      = Inr (reply_record h i res)"
    using assms(6) decode_replyOK_undefined [OF assms(1,2)] decode_replyOK [OF assms(1,2)]
    by auto
  have "receiveOneMessage env s (MessageFactory_replyOK env i res h)
      = dispatch env s (JObj (host_field h @ (''type'', JNum 2) # (''id'', JStr i)
                              # (if res = JUndefined then [] else [(''res'', res)])))"
    by (rule receiveOneMessage_decoded [OF assms(3) _ assms(4)])
       (simp_all add: d reply_record_def)
  then show ?thesis using dispatch_reply [OF assms(5), of env h res]
    by (simp add: reply_record_def)
qed

lemma json_safe_1: "json_safe ''1''"
  by (simp add: json_safe_def dquote_def backslash_def)

lemma calling_engine_facts:
  "\<not> isDisposed calling_engine" "accepts_host calling_engine None"
  "Map_get (pendingRPCReplies calling_engine) ''1'' = Some 1"
proof -
  show "\<not> isDisposed calling_engine" by (simp add: isDisposed_def calling_engine_toDispose)
  show "accepts_host calling_engine None" by (simp add: accepts_host_def split: option.split)
  show "Map_get (pendingRPCReplies calling_engine) ''1'' = Some 1"
    by (simp add: calling_engine_pending)
qed

lemma dispatch_replyErr:
  "Map_get (pendingRPCReplies s) i = Some d \<Longrightarrow>
   dispatch env s (replyErr_record h i err)
     = (s\<lparr>pendingRPCReplies := Map_delete i (pendingRPCReplies s)\<rparr>,
        [Reject d (if truthy err \<and> truthy (js_get err ''$isError'')
                   then JErr (js_get err ''name'') (js_get err ''message'') (js_get err ''stack'')
                          JUndefined
                   else JUndefined)],
        Inr Handled)"
  by (simp add: dispatch_def replyErr_record_def message_fields message_body_field as_string_def
      receiveReplyErr_def)

lemma error_record_fields:
  "truthy (error_record n m st)" "js_get (error_record n m st) ''$isError'' = JBool True"
  "js_get (error_record n m st) ''name'' = n" "js_get (error_record n m st) ''message'' = m"
  "js_get (error_record n m st) ''stack'' = st"
  by (simp_all add: error_record_def)

lemma receive_replyErr:
  assumes "json_safe i" and "host_safe h" and "\<not> isDisposed s" and "accepts_host s h"
    and "Map_get (pendingRPCReplies s) i = Some d"
    and "JSON_parse_reviver (reviver env) raw = Inr (replyErr_record h i err)"
  shows "receiveOneMessage env s raw
     = (s\<lparr>pendingRPCReplies := Map_delete i (pendingRPCReplies s)\<rparr>,
        [Reject d (if truthy err \<and> truthy (js_get err ''$isError'')
                   then JErr (js_get err ''name'') (js_get err ''message'') (js_get err ''stack'')
                          JUndefined
                   else JUndefined)],
        Inr Handled)"
proof -
  have "receiveOneMessage env s raw
      = dispatch env s (JObj (host_field h @ (''type'', JNum 3) # (''id'', JStr i)
                              # [(''err'', err)]))"
    by (rule receiveOneMessage_decoded [OF assms(3) _ assms(4)])
       (simp_all add: assms(6) replyErr_record_def)
  then show ?thesis using dispatch_replyErr [OF assms(5), of env h err]
    by (simp add: replyErr_record_def)
qed

lemma receive_replyErr_error:
  assumes "json_safe i" and "host_safe h" and "\<not> isDisposed s" and "accepts_host s h"
    and "Map_get (pendingRPCReplies s) i = Some d"
    and "string_or_undefined st" and "string_or_undefined stt"
  shows "receiveOneMessage env s (MessageFactory_replyErr env i (JErr (JStr n) (JStr m) st stt) h)
     = (s\<lparr>pendingRPCReplies := Map_delete i (pendingRPCReplies s)\<rparr>,
        [Reject d (JErr (JStr n) (JStr m) (if truthy stt then stt else st) JUndefined)],
        Inr Handled)"
  using receive_replyErr [OF assms(1-5) decode_replyErr_error [OF assms(1,2,6,7)], of env n m]
  by (simp add: error_record_fields)

lemma receive_replyErr_string:
  assumes "json_safe i" and "host_safe h" and "\<not> isDisposed s" and "accepts_host s h"
    and "Map_get (pendingRPCReplies s) i = Some d"
    and "string_or_undefined (Error_stack env x)"
  shows "receiveOneMessage env s (MessageFactory_replyErr env i (JStr x) h)
     = (s\<lparr>pendingRPCReplies := Map_delete i (pendingRPCReplies s)\<rparr>,
        [Reject d (JErr (JStr ''Error'') (JStr x) (Error_stack env x) JUndefined)],
        Inr Handled)"
proof -
  have u: "string_or_undefined (JUndefined :: 'a jsval)" by (simp add: string_or_undefined_def)
  show ?thesis
    using receive_replyErr_error [OF assms(1-5) assms(6) u, of env "''Error''" x]
    by (simp add: replyErr_string new_Error_def)
qed

lemma receive_replyErr_other:
  assumes "json_safe i" and "host_safe h" and "\<not> isDisposed s" and "accepts_host s h"
    and "Map_get (pendingRPCReplies s) i = Some d"
    and "\<not> is_Error e" and "as_string e = None"
  shows "receiveOneMessage env s (MessageFactory_replyErr env i e h)
     = (s\<lparr>pendingRPCReplies := Map_delete i (pendingRPCReplies s)\<rparr>,
        [Reject d JUndefined], Inr Handled)"
  using receive_replyErr [OF assms(1-5) decode_replyErr_other [OF assms(1,2,6,7)], of env]
  by simp

lemma doInvokeHandler_unknown:
  assumes "Map_get (locals s) p = None
           \<or> (\<exists>actor. Map_get (locals s) p = Some actor \<and> \<not> callable (Map_get actor m))"
  shows "doInvokeHandler env s p m a = Throws (new_Error env (unknown_target_message s p m))"
  using assms
proof (elim disjE exE conjE)
  assume "Map_get (locals s) p = None"
  then show ?thesis by (simp add: doInvokeHandler_def unknown_target_message_def)
next
  fix actor
  assume a: "Map_get (locals s) p = Some actor" and c: "\<not> callable (Map_get actor m)"
  show ?thesis
  proof (cases "Map_get actor m")
    case None
    with a show ?thesis by (simp add: doInvokeHandler_def unknown_target_message_def)
  next
    case (Some mem)
    with c obtain x where "mem = Field x" by (cases mem) (simp_all add: callable_def)
    with a Some show ?thesis by (simp add: doInvokeHandler_def unknown_target_message_def)
  qed
qed

lemma receiveRequest_frame:
  "locals (fst (receiveRequest env s i p m a)) = locals s"
  "multiplexor (fst (receiveRequest env s i p m a)) = multiplexor s"
  "messageToSendHostId (fst (receiveRequest env s i p m a)) = messageToSendHostId s"
  by (simp_all add: receiveRequest_def Let_def)

lemma receiveRequest_unknown:
  assumes "Map_get (locals s) p = None
           \<or> (\<exists>actor. Map_get (locals s) p = Some actor \<and> \<not> callable (Map_get actor m))"
  shows "snd (receiveRequest env s i p m a)
           = Rejected (new_Error env (unknown_target_message s p m))"
proof -
  have "doInvokeHandler env (fst (receiveRequest env s i p m a)) p m a'
      = Throws (new_Error env (unknown_target_message s p m))" for a'
    using doInvokeHandler_unknown [of "fst (receiveRequest env s i p m a)" p m env a'] assms
    by (simp add: receiveRequest_frame unknown_target_message_def)
  then show ?thesis
    by (simp add: receiveRequest_def Let_def invokeHandler_def)
qed

lemma dispatch_request:
  "dispatch env s (request_record h i p m a)
     = (fst (receiveRequest env s i p m a), [], Inr (Invoked i (snd (receiveRequest env s i p m a))))"
  by (simp add: dispatch_def request_record_def message_fields message_body_field as_string_def
      as_array_def split: prod.split)

lemma invocation_then_rejected:
  assumes "mux_toDispose (multiplexor s) \<noteq> []"
  shows "invocation_then env s i (Rejected e)
     = (s\<lparr>cancellationTokenSources := Map_delete i (cancellationTokenSources s),
          multiplexor := (multiplexor s)
            \<lparr>messagesToSend := messagesToSend (multiplexor s)
                @ [MessageFactory_replyErr env i e (messageToSendHostId s)]\<rparr>\<rparr>,
        if messagesToSend (multiplexor s) = [] then [SetImmediate] else [],
        None)"
  using assms by (simp add: invocation_then_def send_def Let_def)

section \<open>Properties of the protocol\<close>

text \<open>
  Claim C1, as amended. \<open>reviver\<close> after \<open>replacer\<close> gives back a Theia URI when the
  constructor of \<^verbatim>\<open>URI\<close> inverts its \<^verbatim>\<open>toString\<close> on it. It turns a value that \<^verbatim>\<open>Range.is\<close> accepts
  and whose four line and character numbers are integers into the range of these four
  numbers, which is the value itself when it has exactly that form. It turns a value
  marked \<^verbatim>\<open>$mid === 1\<close> that \<^verbatim>\<open>Range.is\<close> does not accept into the \<^verbatim>\<open>VSCodeURI\<close> revived from it
  when \<^verbatim>\<open>VSCodeURI.parse\<close> inverts \<^verbatim>\<open>toString\<close> on that URI. It returns every other value
  unchanged unless the value carries a \<^verbatim>\<open>data\<close> and a \<^verbatim>\<open>$type\<close> of 0, 1 or 2.
\<close>

theorem transferrer_round_trip:
  "(URI_new env (JStr (URI_toString env u)) = Some u
      \<longrightarrow> reviver env (replacer env (JTheiaURI u)) = Inr (JTheiaURI u))
   \<and> (\<not> Range_is v \<and> truthy v \<and> js_get v ''$mid'' = JNum 1
       \<and> VSCodeURI_parse env (JStr (VSCodeURI_toString env (VSCodeURI_revive env v)))
           = Some (VSCodeURI_revive env v)
      \<longrightarrow> reviver env (replacer env v) = Inr (JVSCodeURI (VSCodeURI_revive env v)))
   \<and> (Range_is r \<and> integer_range r \<longrightarrow> reviver env (replacer env r) = Inr (range_of r))
   \<and> reviver env (replacer env
        (JObj [(''start'', JObj [(''line'', JNum a), (''character'', JNum b)]),
               (''end'', JObj [(''line'', JNum c), (''character'', JNum d)])]))
       = Inr (JObj [(''start'', JObj [(''line'', JNum a), (''character'', JNum b)]),
                    (''end'', JObj [(''line'', JNum c), (''character'', JNum d)])])
   \<and> (\<not> is_TheiaURI x \<and> \<not> Range_is x \<and> \<not> (truthy x \<and> js_get x ''$mid'' = JNum 1) \<and> \<not> tagged x
      \<longrightarrow> reviver env (replacer env x) = Inr x)"
proof -
  have 1: "URI_new env (JStr (URI_toString env u)) = Some u
      \<longrightarrow> reviver env (replacer env (JTheiaURI u)) = Inr (JTheiaURI u)"
    by (simp add: reviver_replacer_TheiaURI)
  have n: "js_get v ''$mid'' = JNum 1 \<Longrightarrow> \<not> is_TheiaURI v"
    by (cases v) (simp_all add: is_TheiaURI_def)
  have 2: "\<not> Range_is v \<and> truthy v \<and> js_get v ''$mid'' = JNum 1
       \<and> VSCodeURI_parse env (JStr (VSCodeURI_toString env (VSCodeURI_revive env v)))
           = Some (VSCodeURI_revive env v)
      \<longrightarrow> reviver env (replacer env v) = Inr (JVSCodeURI (VSCodeURI_revive env v))"
    using n by (simp add: reviver_replacer_VSCodeURI)
  have 3: "Range_is r \<and> integer_range r \<longrightarrow> reviver env (replacer env r) = Inr (range_of r)"
    by (simp add: reviver_replacer_Range)
  let ?rg = "JObj [(''start'', JObj [(''line'', JNum a), (''character'', JNum b)]),
                   (''end'', JObj [(''line'', JNum c), (''character'', JNum d)])] :: 'a jsval"
  have "Range_is ?rg" by (simp add: Range_is_def Position_is_def is_number_def)
  moreover have "integer_range ?rg" by (simp add: integer_range_def is_integer_def)
  moreover have "range_of ?rg = ?rg" by (simp add: range_of_def)
  ultimately have 4: "reviver env (replacer env ?rg) = Inr ?rg"
    using reviver_replacer_Range [of ?rg env] by simp
  have 5: "\<not> is_TheiaURI x \<and> \<not> Range_is x \<and> \<not> (truthy x \<and> js_get x ''$mid'' = JNum 1) \<and> \<not> tagged x
      \<longrightarrow> reviver env (replacer env x) = Inr x"
    using replacer_other [of x env] reviver_untagged [of x env] by auto
  from 1 2 3 4 5 show ?thesis by blast
qed

theorem transferrer_round_trip_witness:
  "reviver example_env (replacer example_env (JTheiaURI ''file:///a'')) = Inr (JTheiaURI ''file:///a'')
   \<and> reviver example_env (replacer example_env
        (JObj [(''$mid'', JNum 1), (''external'', JStr ''file:///b'')]))
       = Inr (JVSCodeURI ''file:///b'')
   \<and> reviver example_env (replacer example_env
        (JObj [(''start'', JObj [(''line'', JNum 1), (''character'', JNum 2)]),
               (''end'', JObj [(''line'', JNum 3), (''character'', JNum 4)]),
               (''text'', JStr ''abc'')]))
       = Inr (JObj [(''start'', JObj [(''line'', JNum 1), (''character'', JNum 2)]),
                    (''end'', JObj [(''line'', JNum 3), (''character'', JNum 4)])])
   \<and> reviver example_env (replacer example_env (JObj [(''a'', JArr [JNum 1, JNull])]))
       = Inr (JObj [(''a'', JArr [JNum 1, JNull])])"
proof -
  let ?v = "JObj [(''$mid'', JNum 1), (''external'', JStr ''file:///b'')] :: string jsval"
  let ?r = "JObj [(''start'', JObj [(''line'', JNum 1), (''character'', JNum 2)]),
               (''end'', JObj [(''line'', JNum 3), (''character'', JNum 4)]),
               (''text'', JStr ''abc'')] :: string jsval"
  let ?x = "JObj [(''a'', JArr [JNum 1, JNull])] :: string jsval"
  have u: "URI_new example_env (JStr (URI_toString example_env ''file:///a'')) = Some ''file:///a''"
    by (simp add: example_env_def)
  have v: "\<not> Range_is ?v \<and> truthy ?v \<and> js_get ?v ''$mid'' = JNum 1
       \<and> VSCodeURI_parse example_env
            (JStr (VSCodeURI_toString example_env (VSCodeURI_revive example_env ?v)))
           = Some (VSCodeURI_revive example_env ?v)"
    by (simp add: Range_is_def Position_is_def example_env_def)
  have v': "VSCodeURI_revive example_env ?v = ''file:///b''"
    by (simp add: example_env_def)
  have r: "Range_is ?r \<and> integer_range ?r"
    by (simp add: Range_is_def Position_is_def is_number_def integer_range_def is_integer_def)
  have r': "range_of ?r = JObj [(''start'', JObj [(''line'', JNum 1), (''character'', JNum 2)]),
                    (''end'', JObj [(''line'', JNum 3), (''character'', JNum 4)])]"
    by (simp add: range_of_def)
  have x: "\<not> is_TheiaURI ?x \<and> \<not> Range_is ?x \<and> \<not> (truthy ?x \<and> js_get ?x ''$mid'' = JNum 1) \<and> \<not> tagged ?x"
    by (simp add: is_TheiaURI_def Range_is_def Position_is_def tagged_def isSerializedObject_def)
  show ?thesis
    using transferrer_round_trip [of example_env "''file:///a''" ?v ?r 1 2 3 4 ?x] u v r x
    by (simp only: v' r') simp
qed

text \<open>
  Claim C1 as stated fails on four values. A plain JSON object with a \<^verbatim>\<open>$type\<close> of 0 and a
  \<^verbatim>\<open>data\<close> passes the replacer as it is and the reviver makes a URI of it. A value marked
  \<^verbatim>\<open>$mid === 1\<close> that also has a \<^verbatim>\<open>start\<close> and an \<^verbatim>\<open>end\<close> is taken for a range, because
  \<open>replacer\<close> asks \<^verbatim>\<open>Range.is\<close> first. A range whose line is \<^verbatim>\<open>NaN\<close> is written with the line
  \<^verbatim>\<open>null\<close>, which \<^verbatim>\<open>Range.create\<close> refuses. A range with one more property comes back
  without it.
\<close>

theorem transferrer_changes_the_value:
  "reviver example_env (replacer example_env
      (JObj [(''$type'', JNum 0), (''data'', JStr ''file:///a'')]))
     = Inr (JTheiaURI ''file:///a'')
   \<and> reviver example_env (replacer example_env
      (JObj [(''$mid'', JNum 1), (''external'', JStr ''file:///b''),
             (''start'', JObj [(''line'', JNum 1), (''character'', JNum 2)]),
             (''end'', JObj [(''line'', JNum 3), (''character'', JNum 4)])]))
     = Inr (JObj [(''start'', JObj [(''line'', JNum 1), (''character'', JNum 2)]),
                  (''end'', JObj [(''line'', JNum 3), (''character'', JNum 4)])])
   \<and> reviver example_env (replacer example_env
      (JObj [(''start'', JObj [(''line'', JNonFinite NaN), (''character'', JNum 2)]),
             (''end'', JObj [(''line'', JNum 3), (''character'', JNum 4)])]))
     = Inl InvalidArguments
   \<and> reviver example_env (replacer example_env
      (JObj [(''start'', JObj [(''line'', JNum 1), (''character'', JNum 2)]),
             (''end'', JObj [(''line'', JNum 3), (''character'', JNum 4)]),
             (''text'', JStr ''abc'')]))
     = Inr (JObj [(''start'', JObj [(''line'', JNum 1), (''character'', JNum 2)]),
                  (''end'', JObj [(''line'', JNum 3), (''character'', JNum 4)])])"
proof -
  let ?m = "JObj [(''$mid'', JNum 1), (''external'', JStr ''file:///b''),
             (''start'', JObj [(''line'', JNum 1), (''character'', JNum 2)]),
             (''end'', JObj [(''line'', JNum 3), (''character'', JNum 4)])] :: string jsval"
  let ?n = "JObj [(''start'', JObj [(''line'', JNonFinite NaN), (''character'', JNum 2)]),
             (''end'', JObj [(''line'', JNum 3), (''character'', JNum 4)])] :: string jsval"
  let ?w = "JObj [(''start'', JObj [(''line'', JNull), (''character'', JNum 2)]),
             (''end'', JObj [(''line'', JNum 3), (''character'', JNum 4)])] :: string jsval"
  let ?r = "JObj [(''start'', JObj [(''line'', JNum 1), (''character'', JNum 2)]),
               (''end'', JObj [(''line'', JNum 3), (''character'', JNum 4)]),
               (''text'', JStr ''abc'')] :: string jsval"
  have a: "reviver example_env (replacer example_env
      (JObj [(''$type'', JNum 0), (''data'', JStr ''file:///a'')]))
     = Inr (JTheiaURI ''file:///a'')"
    by (simp add: replacer_def reviver_def Range_is_def Position_is_def isSerializedObject_def
        THEIA_URI_def example_env_def)
  have "Range_is ?m" "integer_range ?m"
    by (simp_all add: Range_is_def Position_is_def is_number_def integer_range_def is_integer_def)
  from reviver_replacer_Range [OF this, of example_env]
  have b: "reviver example_env (replacer example_env ?m)
     = Inr (JObj [(''start'', JObj [(''line'', JNum 1), (''character'', JNum 2)]),
                  (''end'', JObj [(''line'', JNum 3), (''character'', JNum 4)])])"
    by (simp add: range_of_def)
  have pw: "plain ?w" by simp
  obtain t where t: "serialize ?w = Some t" using serialize_plain_starts [OF pw] by blast
  have "serialize (json_image ?n) = serialize ?n" using serialize_json_image(1) [of ?n] by simp
  then have sn: "serialize ?n = Some t" using t by simp
  have "prepare example_env (\<lambda>x. x) ?n = ?n" by simp
  then have J: "JSON_stringify example_env (\<lambda>x. x) ?n = Some t"
    by (simp only: JSON_stringify_def sn)
  have rn: "replacer example_env ?n = SerializedObject THEIA_RANGE (JStr t)"
    unfolding replacer_def
    by (simp add: Let_def text_value_def J Range_is_def Position_is_def is_number_def)
  have "JSON_parse t = Some ?w" by (rule JSON_parse_serialize [OF pw t])
  then have c: "reviver example_env (replacer example_env ?n) = Inl InvalidArguments"
    by (simp add: rn reviver_def SerializedObject_def isSerializedObject_def THEIA_RANGE_def
        THEIA_URI_def VSCODE_URI_def JSON_parse_any_def revive_range_def get_member_def
        Range_create_def Position_create_def Position_is_def is_number_def)
  have "Range_is ?r" "integer_range ?r"
    by (simp_all add: Range_is_def Position_is_def is_number_def integer_range_def is_integer_def)
  from reviver_replacer_Range [OF this, of example_env]
  have d: "reviver example_env (replacer example_env ?r)
     = Inr (JObj [(''start'', JObj [(''line'', JNum 1), (''character'', JNum 2)]),
                  (''end'', JObj [(''line'', JNum 3), (''character'', JNum 4)])])"
    by (simp add: range_of_def)
  from a b c d show ?thesis by (simp only: simp_thms)
qed

text \<open>
  Claim C2. On every engine reachable from the constructor, \<open>dispose\<close> rejects the
  \<^verbatim>\<open>Deferred\<close> of every entry of the pending-call table, in the table's order and each
  exactly once, with an error whose message is \<^verbatim>\<open>connection is closed\<close>; the table is
  empty afterwards; \<open>send\<close> on the multiplexer throws \<open>ConnectionClosed\<close> for every message;
  and a second \<open>dispose\<close> changes nothing and has no effect.
\<close>

theorem dispose_rejects_pending:
  fixes s :: "'u RPCProtocolImpl" and env :: "'u env"
  assumes "reachable env s"
  shows "rejections (snd (dispose env s))
           = map (\<lambda>(k, reply). (reply, new_Error env ''connection is closed'')) (pendingRPCReplies s)
       \<and> distinct (map fst (rejections (snd (dispose env s))))
       \<and> js_get (new_Error env ''connection is closed'') ''message'' = JStr ''connection is closed''
       \<and> pendingRPCReplies (fst (dispose env s)) = []
       \<and> (send (multiplexor (fst (dispose env s))) msg :: exn + (RPCMultiplexer \<times> 'u effect list))
           = Inl ConnectionClosed
       \<and> dispose env (fst (dispose env s)) = (fst (dispose env s), [])"
proof (cases "isDisposed s")
  case True
  from reachable_disposed [OF assms True] True show ?thesis
    by (simp add: dispose_def send_def new_Error_def)
next
  case nd: False
  obtain s1 effs where f: "fold (dispose_one env) (toDispose s) (s, []) = (s1, effs)"
    by (cases "fold (dispose_one env) (toDispose s) (s, [])")
  note live = reachable_live [OF assms nd]
  from nd f have d: "dispose env s = (s1\<lparr>toDispose := []\<rparr>, effs)"
    by (simp add: dispose_def)
  note r = fold_dispose_one [OF f]
  have 1: "rejections effs
      = map (\<lambda>(k, reply). (reply, new_Error env ''connection is closed'')) (pendingRPCReplies s)"
    using r live by simp
  have 2: "distinct (map fst (rejections effs))"
    using reachable_pending [OF assms] by (simp only: 1 map_fst_rejected)
  have 3: "js_get (new_Error env ''connection is closed'') ''message'' = JStr ''connection is closed''"
    by (simp add: new_Error_def)
  have 4: "pendingRPCReplies s1 = []" using r live by simp
  have 5: "mux_toDispose (multiplexor s1) = []" using r live by simp
  have 6: "dispose env (s1\<lparr>toDispose := []\<rparr>) = (s1\<lparr>toDispose := []\<rparr>, [])"
    by (simp add: dispose_def isDisposed_def)
  from 1 2 3 4 5 6 show ?thesis by (simp add: d send_def)
qed

theorem dispose_rejects_pending_witness:
  "rejections (snd (dispose example_env calling_engine))
     = [(1, new_Error example_env ''connection is closed''),
        (2, new_Error example_env ''connection is closed'')]
   \<and> pendingRPCReplies (fst (dispose example_env calling_engine)) = []
   \<and> (send (multiplexor (fst (dispose example_env calling_engine))) ''{}''
        :: exn + (RPCMultiplexer \<times> string effect list)) = Inl ConnectionClosed
   \<and> dispose example_env (fst (dispose example_env calling_engine))
       = (fst (dispose example_env calling_engine), [])"
  using dispose_rejects_pending [OF reachable_calling_engine, of "''{}''"]
  by (simp add: calling_engine_pending)

text \<open>
  Claim C3. For a call id that is in neither the pending-call table nor the
  cancellation-source table, \<open>receiveReply\<close>, \<open>receiveReplyErr\<close> and \<open>receiveCancel\<close> return
  the engine as it was and no effect (nothing is resolved, rejected, cancelled or sent),
  and so does the dispatch of a decoded Reply, ReplyError or Cancel message that carries
  the id; no exception is raised.
\<close>

theorem unknown_id_is_ignored:
  assumes "Map_get (pendingRPCReplies s) i = None"
    and "Map_get (cancellationTokenSources s) i = None"
  shows "receiveReply s i res = (s, [])
       \<and> receiveReplyErr s i err = (s, [])
       \<and> receiveCancel s i = (s, [])
       \<and> (js_get msg ''id'' = JStr i
            \<and> (js_get msg ''type'' = JNum 2 \<or> js_get msg ''type'' = JNum 3 \<or> js_get msg ''type'' = JNum 4)
          \<longrightarrow> dispatch env s msg = (s, [], Inr Handled))"
  using assms
  by (auto simp: receiveReply_def receiveReplyErr_def receiveCancel_def dispatch_def as_string_def)

theorem unknown_id_is_ignored_witness:
  "receiveReply fresh_engine ''7'' (JNum 1) = (fresh_engine, [])
   \<and> receiveReplyErr fresh_engine ''7'' JNull = (fresh_engine, [])
   \<and> receiveCancel fresh_engine ''7'' = (fresh_engine, [])
   \<and> dispatch example_env fresh_engine (JObj [(''type'', JNum 4), (''id'', JStr ''7'')])
       = (fresh_engine, [], Inr Handled)"
proof -
  have a: "Map_get (pendingRPCReplies fresh_engine) ''7'' = None"
    by (simp add: fresh_engine_def)
  have b: "Map_get (cancellationTokenSources fresh_engine) ''7'' = None"
    by (simp add: fresh_engine_def)
  show ?thesis
    using unknown_id_is_ignored [OF a b, of "JNum 1" JNull
        "JObj [(''type'', JNum 4), (''id'', JStr ''7'')]" example_env]
    by simp
qed

text \<open>
  Claim C4. The text \<open>MessageFactory_replyOK\<close> writes is the text without a \<^verbatim>\<open>res\<close> field
  exactly when the result is \<^verbatim>\<open>undefined\<close>. \<open>receiveReply\<close> resolves the \<^verbatim>\<open>Deferred\<close> of a
  pending call with the \<^verbatim>\<open>res\<close> of the message, whatever it is. End to end, for a call id
  and a host id that the template writes as they are, on an engine that is not disposed
  and accepts the host id: the reply without a result decodes to a record with no \<^verbatim>\<open>res\<close>
  and resolves the pending call with \<^verbatim>\<open>undefined\<close> (not with \<^verbatim>\<open>null\<close>, not with a string);
  the reply with a transferable result resolves it with that result.
\<close>

theorem reply_without_result:
  fixes env :: "'u env"
  shows "(MessageFactory_replyOK env i res h = MessageFactory_replyOK env i JUndefined h)
     = (res = JUndefined)
   \<and> (Map_get (pendingRPCReplies s) i = Some d \<longrightarrow>
        receiveReply s i v
          = (s\<lparr>pendingRPCReplies := Map_delete i (pendingRPCReplies s)\<rparr>, [Resolve d v]))
   \<and> (json_safe i \<and> host_safe h \<and> \<not> isDisposed s \<and> accepts_host s h
        \<and> Map_get (pendingRPCReplies s) i = Some d \<longrightarrow>
        JSON_parse_reviver (reviver env) (MessageFactory_replyOK env i JUndefined h)
          = Inr (reply_record h i JUndefined)
        \<and> js_get (reply_record h i JUndefined :: 'u jsval) ''res'' = JUndefined
        \<and> receiveOneMessage env s (MessageFactory_replyOK env i JUndefined h)
          = (s\<lparr>pendingRPCReplies := Map_delete i (pendingRPCReplies s)\<rparr>,
             [Resolve d JUndefined], Inr Handled))
   \<and> (json_safe i \<and> host_safe h \<and> \<not> isDisposed s \<and> accepts_host s h
        \<and> Map_get (pendingRPCReplies s) i = Some d \<and> transferable env res \<longrightarrow>
        receiveOneMessage env s (MessageFactory_replyOK env i res h)
          = (s\<lparr>pendingRPCReplies := Map_delete i (pendingRPCReplies s)\<rparr>,
             [Resolve d res], Inr Handled))"
proof -
  have 1: "js_get (reply_record h i JUndefined :: 'u jsval) ''res'' = JUndefined"
    by (simp add: reply_record_def message_body_field)
  show ?thesis
    using replyOK_omits_res [of env i res h] receiveReply_pending [of s i d v]
      receive_replyOK [of i h s d JUndefined env] receive_replyOK [of i h s d res env]
      decode_replyOK_undefined [of i h env] 1
    by blast
qed

theorem reply_without_result_witness:
  "MessageFactory_replyOK example_env ''1'' JNull None
     \<noteq> MessageFactory_replyOK example_env ''1'' JUndefined None
   \<and> receiveReply calling_engine ''1'' JUndefined
       = (calling_engine\<lparr>pendingRPCReplies := [(''2'', 2)]\<rparr>, [Resolve 1 JUndefined])
   \<and> receiveOneMessage example_env calling_engine
        (MessageFactory_replyOK example_env ''1'' JUndefined None)
       = (calling_engine\<lparr>pendingRPCReplies := [(''2'', 2)]\<rparr>, [Resolve 1 JUndefined], Inr Handled)
   \<and> receiveOneMessage example_env calling_engine
        (MessageFactory_replyOK example_env ''1'' (JStr ''hi'') None)
       = (calling_engine\<lparr>pendingRPCReplies := [(''2'', 2)]\<rparr>, [Resolve 1 (JStr ''hi'')],
          Inr Handled)"
proof -
  have t: "transferable example_env (JStr ''hi'')" by simp
  have h: "host_safe None" by (simp add: host_safe_def)
  note w1 = reply_without_result [of example_env "''1''" JNull None calling_engine 1 JUndefined]
  note w2 = reply_without_result [of example_env "''1''" "JStr ''hi''" None calling_engine 1 JUndefined]
  from w1 w2 json_safe_1 h t calling_engine_facts show ?thesis
    by (simp add: calling_engine_pending)
qed

text \<open>
  Claim C5, as amended. For the id of a pending call, on an engine that is not disposed
  and accepts the host id (both written by the template as they are): the ReplyError
  built from an \<^verbatim>\<open>Error\<close> with a name and a message rejects the call with an \<^verbatim>\<open>Error\<close> of the
  same name and message whose stack is the \<^verbatim>\<open>stacktrace\<close> of the original when that is
  truthy and its \<^verbatim>\<open>stack\<close> otherwise; the one built from a string rejects it with the
  \<^verbatim>\<open>Error\<close> made of the string; the one built from any other value carries \<^verbatim>\<open>err: null\<close> and
  rejects it with \<^verbatim>\<open>undefined\<close>.
\<close>

theorem reply_error_round_trip:
  assumes "json_safe i" and "host_safe h" and "\<not> isDisposed s" and "accepts_host s h"
    and "Map_get (pendingRPCReplies s) i = Some d"
  shows "(string_or_undefined st \<and> string_or_undefined stt \<longrightarrow>
          receiveOneMessage env s
            (MessageFactory_replyErr env i (JErr (JStr n) (JStr m) st stt) h)
          = (s\<lparr>pendingRPCReplies := Map_delete i (pendingRPCReplies s)\<rparr>,
             [Reject d (JErr (JStr n) (JStr m) (if truthy stt then stt else st) JUndefined)],
             Inr Handled))
       \<and> (string_or_undefined (Error_stack env x) \<longrightarrow>
          receiveOneMessage env s (MessageFactory_replyErr env i (JStr x) h)
          = (s\<lparr>pendingRPCReplies := Map_delete i (pendingRPCReplies s)\<rparr>,
             [Reject d (JErr (JStr ''Error'') (JStr x) (Error_stack env x) JUndefined)],
             Inr Handled))
       \<and> (\<not> is_Error e \<and> as_string e = None \<longrightarrow>
          JSON_parse_reviver (reviver env) (MessageFactory_replyErr env i e h)
            = Inr (replyErr_record h i JNull)
          \<and> receiveOneMessage env s (MessageFactory_replyErr env i e h)
          = (s\<lparr>pendingRPCReplies := Map_delete i (pendingRPCReplies s)\<rparr>,
             [Reject d JUndefined], Inr Handled))"
  using receive_replyErr_error [OF assms, of st stt env n m]
    receive_replyErr_string [OF assms, of env x]
    receive_replyErr_other [OF assms, of e env]
    decode_replyErr_other [OF assms(1,2), of e env]
  by blast

theorem reply_error_round_trip_witness:
  "receiveOneMessage example_env calling_engine
     (MessageFactory_replyErr example_env ''1''
        (JErr (JStr ''TypeError'') (JStr ''boom'') (JStr ''at f'') JUndefined) None)
   = (calling_engine\<lparr>pendingRPCReplies := [(''2'', 2)]\<rparr>,
      [Reject 1 (JErr (JStr ''TypeError'') (JStr ''boom'') (JStr ''at f'') JUndefined)],
      Inr Handled)
   \<and> receiveOneMessage example_env calling_engine
       (MessageFactory_replyErr example_env ''1'' (JStr ''boom'') None)
   = (calling_engine\<lparr>pendingRPCReplies := [(''2'', 2)]\<rparr>,
      [Reject 1 (JErr (JStr ''Error'') (JStr ''boom'') (JStr ''Error: boom'') JUndefined)],
      Inr Handled)
   \<and> receiveOneMessage example_env calling_engine
       (MessageFactory_replyErr example_env ''1'' (JNum 42) None)
   = (calling_engine\<lparr>pendingRPCReplies := [(''2'', 2)]\<rparr>, [Reject 1 JUndefined], Inr Handled)"
proof -
  have h: "host_safe None" by (simp add: host_safe_def)
  note w = reply_error_round_trip [OF json_safe_1 h calling_engine_facts,
      of "JStr ''at f''" JUndefined example_env "''TypeError''" "''boom''" "''boom''" "JNum 42"]
  then show ?thesis
    by (simp add: string_or_undefined_def example_env_def is_Error_def as_string_def
        calling_engine_pending)
qed

text \<open>
  Claim C5 as stated fails on an \<^verbatim>\<open>Error\<close> that has a \<^verbatim>\<open>stacktrace\<close>:
  \<^verbatim>\<open>transformErrorForSerialization\<close> sends it in the place of the stack, and the caller's
  error has the stack \<^verbatim>\<open>opera\<close> where the original has \<^verbatim>\<open>at f\<close>.
\<close>

theorem stacktrace_replaces_stack:
  "receiveOneMessage example_env calling_engine
     (MessageFactory_replyErr example_env ''1''
        (JErr (JStr ''Error'') (JStr ''boom'') (JStr ''at f'') (JStr ''opera'')) None)
   = (calling_engine\<lparr>pendingRPCReplies := [(''2'', 2)]\<rparr>,
      [Reject 1 (JErr (JStr ''Error'') (JStr ''boom'') (JStr ''opera'') JUndefined)],
      Inr Handled)"
proof -
  have h: "host_safe None" by (simp add: host_safe_def)
  have s: "string_or_undefined (JStr ''at f'' :: string jsval)"
      "string_or_undefined (JStr ''opera'' :: string jsval)"
    by (simp_all add: string_or_undefined_def)
  show ?thesis
    using receive_replyErr_error [OF json_safe_1 h calling_engine_facts s,
        of example_env "''Error''" "''boom''"]
    by (simp add: calling_engine_pending)
qed

text \<open>
  Claim C6, as amended. On an engine that has not been disposed, \<open>remoteCall\<close> with a last
  argument that is a cancelled token returns a promise that is rejected from the start
  with an error whose name and message are both \<^verbatim>\<open>Canceled\<close>; the engine is returned as it
  was, so nothing was handed to the multiplexer, no call id was allocated and the
  pending-call table has no new entry, and there is no effect.
\<close>

theorem remoteCall_cancelled_token:
  assumes "\<not> isDisposed s" and "args \<noteq> []" and "last args = JToken True"
  shows "remoteCall env s p m args = (s, butlast args, [], Inr (RejectedPromise (canceled env)))
       \<and> js_get (canceled env) ''name'' = JStr ''Canceled''
       \<and> js_get (canceled env) ''message'' = JStr ''Canceled''"
  using assms
  by (simp add: remoteCall_def CancellationToken_is_def Let_def canceled_def new_Error_def)

theorem remoteCall_cancelled_token_witness:
  "remoteCall example_env served_engine ''B'' ''$run'' [JNum 1, JToken True]
     = (served_engine, [JNum 1], [], Inr (RejectedPromise (canceled example_env)))
   \<and> js_get (canceled example_env) ''name'' = JStr ''Canceled''
   \<and> js_get (canceled example_env) ''message'' = JStr ''Canceled''"
proof -
  have a: "\<not> isDisposed served_engine"
    by (simp add: isDisposed_def served_engine_def fresh_engine_def)
  show ?thesis
    using remoteCall_cancelled_token [OF a, of "[JNum 1, JToken True]" example_env "''B''" "''$run''"]
    by simp
qed

text \<open>
  Claim C6 as stated fails on a disposed engine: the guard at the head of \<open>remoteCall\<close>
  answers first, and the promise is rejected with the error \<^verbatim>\<open>connection is closed\<close>, whose
  name is \<^verbatim>\<open>Error\<close>.
\<close>

theorem remoteCall_disposed_cancelled_token:
  "remoteCall example_env disposed_engine ''B'' ''$run'' [JNum 1, JToken True]
     = (disposed_engine, [JNum 1, JToken True], [],
        Inr (RejectedPromise (JErr (JStr ''Error'') (JStr ''connection is closed'')
               (JStr ''Error: connection is closed'') JUndefined)))"
  by (simp add: remoteCall_def isDisposed_disposed_engine new_Error_def example_env_def)

text \<open>
  Claim C7. On a reachable engine that is not disposed, a Request for a proxy id with
  no registered instance, or for a member of the instance that is not a function, does
  not throw: its invocation is a promise rejected with the error \<^verbatim>\<open>Unknown actor ...\<close> or
  \<^verbatim>\<open>Unknown method ... on actor ...\<close>, and the rejection callback hands the multiplexer the
  ReplyError message built from that error and raises nothing. Where the call id and the
  host id are written by the template as they are, that message decodes to a ReplyError
  record carrying the error's name, message and stack.
\<close>

theorem unknown_target_is_answered:
  fixes env :: "'u env"
  assumes "reachable env s" and "\<not> isDisposed s"
    and "Map_get (locals s) p = None
         \<or> (\<exists>actor. Map_get (locals s) p = Some actor \<and> \<not> callable (Map_get actor m))"
  shows "dispatch env s (request_record h i p m a)
           = (fst (receiveRequest env s i p m a), [],
              Inr (Invoked i (Rejected (new_Error env (unknown_target_message s p m)))))
       \<and> messagesToSend (multiplexor (fst
            (invocation_then env (fst (receiveRequest env s i p m a)) i
               (Rejected (new_Error env (unknown_target_message s p m))))))
           = messagesToSend (multiplexor s)
             @ [MessageFactory_replyErr env i (new_Error env (unknown_target_message s p m))
                  (messageToSendHostId s)]
       \<and> snd (snd (invocation_then env (fst (receiveRequest env s i p m a)) i
               (Rejected (new_Error env (unknown_target_message s p m))))) = None
       \<and> (json_safe i \<and> host_safe (messageToSendHostId s)
            \<and> string_or_undefined (Error_stack env (unknown_target_message s p m)) \<longrightarrow>
          JSON_parse_reviver (reviver env)
            (MessageFactory_replyErr env i (new_Error env (unknown_target_message s p m))
               (messageToSendHostId s))
          = Inr (replyErr_record (messageToSendHostId s) i
                   (error_record (JStr ''Error'') (JStr (unknown_target_message s p m))
                      (Error_stack env (unknown_target_message s p m)))))"
proof -
  let ?e = "new_Error env (unknown_target_message s p m)"
  let ?s1 = "fst (receiveRequest env s i p m a)"
  have 1: "dispatch env s (request_record h i p m a) = (?s1, [], Inr (Invoked i (Rejected ?e)))"
    using receiveRequest_unknown [OF assms(3), of env i a] by (simp add: dispatch_request)
  have m: "mux_toDispose (multiplexor ?s1) \<noteq> []"
    using reachable_live [OF assms(1,2)] by (simp add: receiveRequest_frame)
  note t = invocation_then_rejected [OF m, of env i ?e]
  have 2: "messagesToSend (multiplexor (fst (invocation_then env ?s1 i (Rejected ?e))))
      = messagesToSend (multiplexor s)
        @ [MessageFactory_replyErr env i ?e (messageToSendHostId s)]"
    by (simp add: t receiveRequest_frame)
  have 3: "snd (snd (invocation_then env ?s1 i (Rejected ?e))) = None"
    by (simp add: t)
  have u: "string_or_undefined (JUndefined :: 'u jsval)" by (simp add: string_or_undefined_def)
  have 4: "json_safe i \<and> host_safe (messageToSendHostId s)
            \<and> string_or_undefined (Error_stack env (unknown_target_message s p m)) \<longrightarrow>
          JSON_parse_reviver (reviver env)
            (MessageFactory_replyErr env i ?e (messageToSendHostId s))
          = Inr (replyErr_record (messageToSendHostId s) i
                   (error_record (JStr ''Error'') (JStr (unknown_target_message s p m))
                      (Error_stack env (unknown_target_message s p m))))"
    using decode_replyErr_error [of i "messageToSendHostId s"
        "Error_stack env (unknown_target_message s p m)" JUndefined env "''Error''"
        "unknown_target_message s p m"] u
    by (simp add: new_Error_def)
  from 1 2 3 4 show ?thesis by blast
qed

theorem unknown_target_is_answered_witness:
  "dispatch example_env served_engine (request_record None ''9'' ''B'' ''$x'' [])
     = (served_engine, [],
        Inr (Invoked ''9'' (Rejected (JErr (JStr ''Error'') (JStr ''Unknown actor B'')
               (JStr ''Error: Unknown actor B'') JUndefined))))
   \<and> messagesToSend (multiplexor (fst
        (invocation_then example_env
           (fst (receiveRequest example_env served_engine ''9'' ''B'' ''$x'' [])) ''9''
           (Rejected (new_Error example_env ''Unknown actor B'')))))
     = [MessageFactory_replyErr example_env ''9'' (new_Error example_env ''Unknown actor B'') None]
   \<and> JSON_parse_reviver (reviver example_env)
        (MessageFactory_replyErr example_env ''9'' (new_Error example_env ''Unknown actor B'') None)
     = Inr (replyErr_record None ''9''
              (error_record (JStr ''Error'') (JStr ''Unknown actor B'')
                 (JStr ''Error: Unknown actor B'')))
   \<and> dispatch example_env served_engine (request_record None ''9'' ''A'' ''label'' [])
     = (served_engine, [],
        Inr (Invoked ''9'' (Rejected (JErr (JStr ''Error'')
               (JStr ''Unknown method label on actor A'')
               (JStr ''Error: Unknown method label on actor A'') JUndefined))))"
proof -
  have m: "\<not> isDisposed served_engine"
    by (simp add: served_engine_def fresh_engine_def isDisposed_def)
  note r = reachable_served_engine
  have b: "Map_get (locals served_engine) ''B'' = None
       \<or> (\<exists>actor. Map_get (locals served_engine) ''B'' = Some actor
            \<and> \<not> callable (Map_get actor ''$x''))"
    by (simp add: served_engine_def fresh_engine_def)
  have a: "Map_get (locals served_engine) ''A'' = None
       \<or> (\<exists>actor. Map_get (locals served_engine) ''A'' = Some actor
            \<and> \<not> callable (Map_get actor ''label''))"
    by (simp add: served_engine_def fresh_engine_def callable_def)
  have ub: "unknown_target_message served_engine ''B'' ''$x'' = ''Unknown actor B''"
    by (simp add: unknown_target_message_def served_engine_def fresh_engine_def)
  have ua: "unknown_target_message served_engine ''A'' ''label'' = ''Unknown method label on actor A''"
    by (simp add: unknown_target_message_def served_engine_def fresh_engine_def)
  have s9: "json_safe ''9''" by (simp add: json_safe_def dquote_def backslash_def)
  have hs: "host_safe (messageToSendHostId served_engine)"
    "messageToSendHostId served_engine = None"
    "messagesToSend (multiplexor served_engine) = []"
    by (simp_all add: served_engine_def fresh_engine_def host_safe_def)
  have f: "fst (receiveRequest example_env served_engine ''9'' ''B'' ''$x'' []) = served_engine"
    "fst (receiveRequest example_env served_engine ''9'' ''A'' ''label'' []) = served_engine"
    by (simp_all add: receiveRequest_def)
  have st: "string_or_undefined (Error_stack example_env ''Unknown actor B'')"
    by (simp add: example_env_def string_or_undefined_def)
  note wb = unknown_target_is_answered [OF r m b, of None "''9''" "[]"]
  note wa = unknown_target_is_answered [OF r m a, of None "''9''" "[]"]
  from wb wa s9 hs st show ?thesis
    by (simp add: ub ua f) (simp add: new_Error_def example_env_def)
qed







text \<open>
  Claim C10, as amended. On an engine that has not been disposed, \<open>remoteCall\<close> changes the
  array of arguments it was given: a cancellation token in the last place is popped, and
  when the token is not cancelled the string \<^verbatim>\<open>add.cancellation.token\<close> is pushed in its
  place; in both cases the array after the call differs from the array the caller built.
\<close>

theorem remoteCall_changes_the_array:
  assumes "\<not> isDisposed s" and "args \<noteq> []" and "last args = JToken c"
  shows "fst (snd (remoteCall env s p m args))
           = (if c then butlast args else butlast args @ [JStr ''add.cancellation.token''])
       \<and> fst (snd (remoteCall env s p m args)) \<noteq> args"
proof -
  have 1: "fst (snd (remoteCall env s p m args))
           = (if c then butlast args else butlast args @ [JStr ''add.cancellation.token''])"
    using assms
    by (simp add: remoteCall_def CancellationToken_is_def Let_def split: sum.split prod.split)
  have "butlast args \<noteq> args" using assms(2) by (rule butlast_neq)
  moreover have "butlast args @ [JStr ''add.cancellation.token''] \<noteq> args"
    using assms(2,3) by (intro butlast_snoc_neq) simp_all
  ultimately show ?thesis using 1 by simp
qed

theorem remoteCall_changes_the_array_witness:
  "fst (snd (remoteCall example_env served_engine ''B'' ''$run'' [JNum 1, JToken False]))
     = [JNum 1, JStr ''add.cancellation.token'']
   \<and> fst (snd (remoteCall example_env served_engine ''B'' ''$run'' [JNum 1, JToken False]))
     \<noteq> [JNum 1, JToken False]"
proof -
  have a: "\<not> isDisposed served_engine"
    by (simp add: isDisposed_def served_engine_def fresh_engine_def)
  show ?thesis
    using remoteCall_changes_the_array [OF a, of "[JNum 1, JToken False]" False example_env
        "''B''" "''$run''"]
    by simp
qed

text \<open>
  Claim C10 as stated fails on a disposed engine: \<open>remoteCall\<close> returns before it reads the
  arguments, and the caller's array still ends with its token.
\<close>

theorem remoteCall_disposed_keeps_the_array:
  "fst (snd (remoteCall example_env disposed_engine ''B'' ''$run'' [JNum 1, JToken False]))
     = [JNum 1, JToken False]"
  by (simp add: remoteCall_def isDisposed_disposed_engine)

end
